theory Spec2Isabelle
  imports Complex_Main "HOL-Library.Sublist" "HOL-Library.Multiset"
begin

section \<open>Decimals and the persisted records\<close>

text \<open>
  The exchange carries every amount, price and balance as a
  \<^verbatim>\<open>decimal.Decimal\<close> (shopspring): an arbitrary-precision integer mantissa
  with a power-of-ten exponent. Addition, subtraction, multiplication, \<^verbatim>\<open>Min\<close>
  and the comparisons are exact, so a decimal is modelled by the rational number it
  denotes.

  The records keep decimals as strings (\<^verbatim>\<open>Amount string\<close>, ...). Such a
  field is modelled by what \<^verbatim>\<open>decimal.NewFromString\<close> makes of it:
  \<open>Some d\<close> when the string parses to \<open>d\<close>, \<open>None\<close> when parsing fails (the price
  of a market order is the empty string). \<^verbatim>\<open>d.String()\<close> is the canonical
  rendering of \<open>d\<close>, so writing \<^verbatim>\<open>x.String()\<close> into a field stores \<open>Some x\<close>,
  and two canonical strings are equal exactly when the decimals are.
\<close>

type_synonym decimal = rat

type_synonym dstring = "decimal option"

text \<open>\<^verbatim>\<open>d, _ := decimal.NewFromString(s)\<close>: the error is dropped and \<open>d\<close> is the
  zero decimal when the string does not parse.\<close>

definition decOf :: "dstring \<Rightarrow> decimal" where
  "decOf s = (case s of Some d \<Rightarrow> d | None \<Rightarrow> 0)"

text \<open>\<^verbatim>\<open>model.Order\<close> (timestamps left out: no modelled function reads them).\<close>

record Order =
  ID :: nat
  UserID :: nat
  Symbol :: string
  Type :: int
  Side :: int
  Amount :: dstring
  Price :: dstring
  FilledAmount :: dstring
  Status :: int

text \<open>\<^verbatim>\<open>model.Trade\<close>.\<close>

record Trade =
  Symbol :: string
  BuyOrderID :: nat
  SellOrderID :: nat
  BuyUserID :: nat
  SellUserID :: nat
  Price :: dstring
  Amount :: dstring

section \<open>The order book\<close>

text \<open>
  \<^verbatim>\<open>PriceLevel\<close>: the FIFO queue of one price. \<^verbatim>\<open>Orders\<close> is a
  \<^verbatim>\<open>container/list\<close> of order pointers; the model keeps the orders themselves,
  front first. The engine reaches a resting order only through the book (the front of a
  level), so an update through such a pointer is an update of the queue element.
\<close>

record PriceLevel =
  Price :: decimal
  Orders :: "Order list"
  Total :: decimal

definition NewPriceLevel :: "decimal \<Rightarrow> PriceLevel" where
  "NewPriceLevel price = \<lparr>Price = price, Orders = [], Total = 0\<rparr>"

definition PriceLevel_AddOrder :: "PriceLevel \<Rightarrow> Order \<Rightarrow> PriceLevel" where
  "PriceLevel_AddOrder pl order =
     pl\<lparr>Orders := Orders pl @ [order],
        Total := Total pl + decOf (Order.Amount order)\<rparr>"

text \<open>The scan of \<^verbatim>\<open>PriceLevel.RemoveOrder\<close>: the queue without its first element
  of the given id, or \<open>None\<close> when no element has it.\<close>

fun removeFirstID :: "nat \<Rightarrow> Order list \<Rightarrow> Order list option" where
  "removeFirstID i [] = None"
| "removeFirstID i (e # es) =
     (if ID e = i then Some es else map_option ((#) e) (removeFirstID i es))"

definition PriceLevel_RemoveOrder :: "PriceLevel \<Rightarrow> Order \<Rightarrow> PriceLevel" where
  "PriceLevel_RemoveOrder pl order =
     (case removeFirstID (ID order) (Orders pl) of
        None \<Rightarrow> pl
      | Some es \<Rightarrow> pl\<lparr>Orders := es, Total := Total pl - decOf (Order.Amount order)\<rparr>)"

text \<open>\<^verbatim>\<open>PriceLevel.UpdateOrderAmount\<close> changes the level's total and the order
  behind the pointer; the model returns both.\<close>

definition PriceLevel_UpdateOrderAmount ::
  "PriceLevel \<Rightarrow> Order \<Rightarrow> decimal \<Rightarrow> PriceLevel \<times> Order" where
  "PriceLevel_UpdateOrderAmount pl order newAmount =
     (pl\<lparr>Total := Total pl - decOf (Order.Amount order) + newAmount\<rparr>,
      order\<lparr>Order.Amount := Some newAmount\<rparr>)"

definition IsEmpty :: "PriceLevel \<Rightarrow> bool" where
  "IsEmpty pl = (length (Orders pl) = 0)"

text \<open>
  \<^verbatim>\<open>OrderBook\<close>: the two ladders are Go maps keyed by \<^verbatim>\<open>price.String()\<close>,
  here maps keyed by the decimal (the canonical string and the decimal determine each
  other), and the two sorted price slices. The mutex and \<^verbatim>\<open>LastUpdate\<close> are left
  out.
\<close>

record OrderBook =
  Symbol :: string
  Bids :: "decimal \<rightharpoonup> PriceLevel"
  Asks :: "decimal \<rightharpoonup> PriceLevel"
  BidPrices :: "decimal list"
  AskPrices :: "decimal list"

definition NewOrderBook :: "string \<Rightarrow> OrderBook" where
  "NewOrderBook symbol =
     \<lparr>Symbol = symbol, Bids = Map.empty, Asks = Map.empty, BidPrices = [], AskPrices = []\<rparr>"

text \<open>\<^verbatim>\<open>sort.Slice\<close> after the append: the prices are decimals, so the sorted
  arrangement is unique; descending for bids, ascending for asks.\<close>

definition insertBidPrice :: "OrderBook \<Rightarrow> decimal \<Rightarrow> OrderBook" where
  "insertBidPrice ob price = ob\<lparr>BidPrices := rev (sort (BidPrices ob @ [price]))\<rparr>"

definition insertAskPrice :: "OrderBook \<Rightarrow> decimal \<Rightarrow> OrderBook" where
  "insertAskPrice ob price = ob\<lparr>AskPrices := sort (AskPrices ob @ [price])\<rparr>"

text \<open>The first price equal to the given one is cut out of the slice.\<close>

definition removeBidPrice :: "OrderBook \<Rightarrow> decimal \<Rightarrow> OrderBook" where
  "removeBidPrice ob price = ob\<lparr>BidPrices := remove1 price (BidPrices ob)\<rparr>"

definition removeAskPrice :: "OrderBook \<Rightarrow> decimal \<Rightarrow> OrderBook" where
  "removeAskPrice ob price = ob\<lparr>AskPrices := remove1 price (AskPrices ob)\<rparr>"

definition OrderBook_AddOrder :: "OrderBook \<Rightarrow> Order \<Rightarrow> OrderBook" where
  "OrderBook_AddOrder ob order =
     (let price = decOf (Order.Price order) in
      if Side order = 1 then
        (let ob1 = (case Bids ob price of
                      None \<Rightarrow> insertBidPrice (ob\<lparr>Bids := (Bids ob)(price \<mapsto> NewPriceLevel price)\<rparr>) price
                    | Some _ \<Rightarrow> ob)
         in case Bids ob1 price of
              None \<Rightarrow> ob1
            | Some level \<Rightarrow> ob1\<lparr>Bids := (Bids ob1)(price \<mapsto> PriceLevel_AddOrder level order)\<rparr>)
      else
        (let ob1 = (case Asks ob price of
                      None \<Rightarrow> insertAskPrice (ob\<lparr>Asks := (Asks ob)(price \<mapsto> NewPriceLevel price)\<rparr>) price
                    | Some _ \<Rightarrow> ob)
         in case Asks ob1 price of
              None \<Rightarrow> ob1
            | Some level \<Rightarrow> ob1\<lparr>Asks := (Asks ob1)(price \<mapsto> PriceLevel_AddOrder level order)\<rparr>))"

definition OrderBook_RemoveOrder :: "OrderBook \<Rightarrow> Order \<Rightarrow> OrderBook" where
  "OrderBook_RemoveOrder ob order =
     (let price = decOf (Order.Price order) in
      if Side order = 1 then
        (case Bids ob price of
           None \<Rightarrow> ob
         | Some level \<Rightarrow>
             (let level' = PriceLevel_RemoveOrder level order in
              if IsEmpty level'
              then removeBidPrice (ob\<lparr>Bids := (Bids ob)(price := None)\<rparr>) price
              else ob\<lparr>Bids := (Bids ob)(price \<mapsto> level')\<rparr>))
      else
        (case Asks ob price of
           None \<Rightarrow> ob
         | Some level \<Rightarrow>
             (let level' = PriceLevel_RemoveOrder level order in
              if IsEmpty level'
              then removeAskPrice (ob\<lparr>Asks := (Asks ob)(price := None)\<rparr>) price
              else ob\<lparr>Asks := (Asks ob)(price \<mapsto> level')\<rparr>)))"

text \<open>
  A \<^verbatim>\<open>*PriceLevel\<close> handed out by the book is modelled by its key in the ladder
  together with the level stored under it; \<open>None\<close> in the second place is the nil pointer
  a Go map yields for a missing key. The outer \<open>None\<close> is \<^verbatim>\<open>(nil, false)\<close>.
\<close>

definition GetBestBid :: "OrderBook \<Rightarrow> (decimal \<times> PriceLevel option) option" where
  "GetBestBid ob =
     (case BidPrices ob of [] \<Rightarrow> None | bestPrice # _ \<Rightarrow> Some (bestPrice, Bids ob bestPrice))"

definition GetBestAsk :: "OrderBook \<Rightarrow> (decimal \<times> PriceLevel option) option" where
  "GetBestAsk ob =
     (case AskPrices ob of [] \<Rightarrow> None | bestPrice # _ \<Rightarrow> Some (bestPrice, Asks ob bestPrice))"

text \<open>\<^verbatim>\<open>OrderBook.UpdateOrderAmount\<close>: the level is looked up by the order's own
  side and price; without such a level nothing changes, the order included.\<close>

definition OrderBook_UpdateOrderAmount ::
  "OrderBook \<Rightarrow> Order \<Rightarrow> decimal \<Rightarrow> OrderBook \<times> Order" where
  "OrderBook_UpdateOrderAmount ob order newAmount =
     (let price = decOf (Order.Price order) in
      if Side order = 1 then
        (case Bids ob price of
           None \<Rightarrow> (ob, order)
         | Some level \<Rightarrow>
             (let (level', order') = PriceLevel_UpdateOrderAmount level order newAmount
              in (ob\<lparr>Bids := (Bids ob)(price \<mapsto> level')\<rparr>, order')))
      else
        (case Asks ob price of
           None \<Rightarrow> (ob, order)
         | Some level \<Rightarrow>
             (let (level', order') = PriceLevel_UpdateOrderAmount level order newAmount
              in (ob\<lparr>Asks := (Asks ob)(price \<mapsto> level')\<rparr>, order'))))"

section \<open>The matching engine\<close>

record MatchResult =
  Trades :: "Trade list"
  UpdatedOrders :: "Order list"
  FilledOrders :: "Order list"

text \<open>\<^verbatim>\<open>MatchingEngine\<close>: the books by symbol (mutex and logger left out).\<close>

record MatchingEngine =
  orderBooks :: "string \<rightharpoonup> OrderBook"

definition NewMatchingEngine :: MatchingEngine where
  "NewMatchingEngine = \<lparr>orderBooks = Map.empty\<rparr>"

text \<open>\<^verbatim>\<open>GetOrderBook\<close> creates and registers an empty book for an unknown symbol.\<close>

definition GetOrderBook :: "MatchingEngine \<Rightarrow> string \<Rightarrow> OrderBook \<times> MatchingEngine" where
  "GetOrderBook me symbol =
     (case orderBooks me symbol of
        Some orderBook \<Rightarrow> (orderBook, me)
      | None \<Rightarrow> (NewOrderBook symbol,
                 me\<lparr>orderBooks := (orderBooks me)(symbol \<mapsto> NewOrderBook symbol)\<rparr>))"

definition matchOrders :: "Order \<Rightarrow> Order \<Rightarrow> decimal \<Rightarrow> decimal \<times> Order" where
  "matchOrders takerOrder makerOrder takerRemaining =
     (let makerRemaining = decOf (Order.Amount makerOrder);
          makerFilled = decOf (FilledAmount makerOrder);
          makerAvailable = makerRemaining - makerFilled;
          tradeAmount = min takerRemaining makerAvailable
      in (tradeAmount, makerOrder))"

definition createTrade :: "Order \<Rightarrow> Order \<Rightarrow> decimal \<Rightarrow> decimal \<Rightarrow> Trade" where
  "createTrade buyOrder sellOrder price amount =
     \<lparr>Trade.Symbol = Order.Symbol buyOrder,
      BuyOrderID = ID buyOrder,
      SellOrderID = ID sellOrder,
      BuyUserID = UserID buyOrder,
      SellUserID = UserID sellOrder,
      Trade.Price = Some price,
      Trade.Amount = Some amount\<rparr>"

text \<open>
  The maker handed to \<^verbatim>\<open>updateMatchedOrder\<close> is the pointer stored at the front of
  the best level of one ladder. The model names that place (\<open>True\<close> for the ask ladder,
  and the level's key) and writes every assignment through the pointer back to it.
\<close>

type_synonym makerRef = "bool \<times> decimal"

definition storeFront :: "makerRef \<Rightarrow> Order \<Rightarrow> OrderBook \<Rightarrow> OrderBook" where
  "storeFront ref order ob =
     (if fst ref then
        (case Asks ob (snd ref) of
           None \<Rightarrow> ob
         | Some level \<Rightarrow>
             (case Orders level of
                [] \<Rightarrow> ob
              | _ # rest \<Rightarrow> ob\<lparr>Asks := (Asks ob)(snd ref \<mapsto> level\<lparr>Orders := order # rest\<rparr>)\<rparr>))
      else
        (case Bids ob (snd ref) of
           None \<Rightarrow> ob
         | Some level \<Rightarrow>
             (case Orders level of
                [] \<Rightarrow> ob
              | _ # rest \<Rightarrow> ob\<lparr>Bids := (Bids ob)(snd ref \<mapsto> level\<lparr>Orders := order # rest\<rparr>)\<rparr>)))"

definition updateMatchedOrder ::
  "makerRef \<Rightarrow> Order \<Rightarrow> decimal \<Rightarrow> OrderBook \<Rightarrow> MatchResult \<Rightarrow> OrderBook \<times> MatchResult" where
  "updateMatchedOrder ref order tradeAmount orderBook result =
     (let filledAmount = decOf (FilledAmount order);
          orderAmount = decOf (Order.Amount order);
          newFilledAmount = filledAmount + tradeAmount;
          order1 = order\<lparr>FilledAmount := Some newFilledAmount\<rparr>
      in if newFilledAmount \<ge> orderAmount then
           (let order2 = order1\<lparr>Status := 3\<rparr>;
                orderBook1 = OrderBook_RemoveOrder (storeFront ref order2 orderBook) order2
            in (orderBook1, result\<lparr>FilledOrders := FilledOrders result @ [order2]\<rparr>))
         else
           (let order2 = order1\<lparr>Status := 2\<rparr>;
                remainingAmount = orderAmount - newFilledAmount;
                (orderBook1, order3) =
                   OrderBook_UpdateOrderAmount (storeFront ref order2 orderBook) order2 remainingAmount
            in (storeFront ref order3 orderBook1,
                result\<lparr>UpdatedOrders := UpdatedOrders result @ [order3]\<rparr>)))"

text \<open>
  One pass through the body of a matching loop. The source has the loop four times
  (limit and market, buy and sell); the copies differ in the ladder they peek, in the
  price guard (a limit order stops at a worse price, a market order has no guard:
  \<open>guard = None\<close>) and in the order of the arguments of \<^verbatim>\<open>createTrade\<close>.
  \<open>Break\<close> is the \<^verbatim>\<open>break\<close>, \<open>Panicked\<close> a nil dereference
  (\<^verbatim>\<open>bestAsk.Price\<close> or \<^verbatim>\<open>bestAsk.Orders\<close> on a nil level,
  \<^verbatim>\<open>Front().Value\<close> on an empty queue).
\<close>

datatype 'a step = Break | Panicked | Next 'a

definition matchStep ::
  "Order \<Rightarrow> decimal option \<Rightarrow> decimal \<Rightarrow> OrderBook \<Rightarrow> MatchResult
     \<Rightarrow> (decimal \<times> OrderBook \<times> MatchResult) step" where
  "matchStep order guard remainingAmount orderBook result =
     (if Side order = 1 then
        (case GetBestAsk orderBook of
           None \<Rightarrow> Break
         | Some (key, None) \<Rightarrow> Panicked
         | Some (key, Some bestAsk) \<Rightarrow>
             if (case guard of Some orderPrice \<Rightarrow> PriceLevel.Price bestAsk > orderPrice
                              | None \<Rightarrow> False)
             then Break
             else (case Orders bestAsk of
                     [] \<Rightarrow> Panicked
                   | front # _ \<Rightarrow>
                       (let (tradeAmount, matchedOrder) = matchOrders order front remainingAmount;
                            trade = createTrade order matchedOrder (PriceLevel.Price bestAsk) tradeAmount;
                            result1 = result\<lparr>Trades := Trades result @ [trade]\<rparr>;
                            remainingAmount1 = remainingAmount - tradeAmount;
                            (orderBook1, result2) =
                               updateMatchedOrder (True, key) matchedOrder tradeAmount orderBook result1
                        in Next (remainingAmount1, orderBook1, result2))))
      else
        (case GetBestBid orderBook of
           None \<Rightarrow> Break
         | Some (key, None) \<Rightarrow> Panicked
         | Some (key, Some bestBid) \<Rightarrow>
             if (case guard of Some orderPrice \<Rightarrow> PriceLevel.Price bestBid < orderPrice
                              | None \<Rightarrow> False)
             then Break
             else (case Orders bestBid of
                     [] \<Rightarrow> Panicked
                   | front # _ \<Rightarrow>
                       (let (tradeAmount, matchedOrder) = matchOrders order front remainingAmount;
                            trade = createTrade matchedOrder order (PriceLevel.Price bestBid) tradeAmount;
                            result1 = result\<lparr>Trades := Trades result @ [trade]\<rparr>;
                            remainingAmount1 = remainingAmount - tradeAmount;
                            (orderBook1, result2) =
                               updateMatchedOrder (False, key) matchedOrder tradeAmount orderBook result1
                        in Next (remainingAmount1, orderBook1, result2)))))"

text \<open>
  \<^verbatim>\<open>for remainingAmount.GreaterThan(decimal.Zero) { ... }\<close>. On a book whose
  ladders are inconsistent the Go loop need not end, so the loop is a partial function:
  \<open>None\<close> is a run that never returns, \<open>Some (Inl _)\<close> a panic.
\<close>

text \<open>The run-time panics of the code: \<^verbatim>\<open>Front()\<close> of an empty list is
  \<^verbatim>\<open>nil\<close> and its \<^verbatim>\<open>.Value\<close> a nil pointer dereference; a type assertion
  \<^verbatim>\<open>x.(T)\<close> without \<^verbatim>\<open>ok\<close> panics on a value of another type.\<close>

datatype panic = NilPointerDereference | InterfaceConversion

partial_function (option) matchLoop ::
  "Order \<Rightarrow> decimal option \<Rightarrow> decimal \<Rightarrow> OrderBook \<Rightarrow> MatchResult
     \<Rightarrow> (panic + decimal \<times> OrderBook \<times> MatchResult) option" where
  "matchLoop order guard remainingAmount orderBook result =
     (if remainingAmount > 0 then
        (case matchStep order guard remainingAmount orderBook result of
           Break \<Rightarrow> Some (Inr (remainingAmount, orderBook, result))
         | Panicked \<Rightarrow> Some (Inl NilPointerDereference)
         | Next (remainingAmount1, orderBook1, result1) \<Rightarrow>
             matchLoop order guard remainingAmount1 orderBook1 result1)
      else Some (Inr (remainingAmount, orderBook, result)))"

text \<open>\<^verbatim>\<open>updateCurrentOrder\<close>: the state of the incoming limit order after the loop.
  The order that goes into the book is the order as it is at that moment.\<close>

definition updateCurrentOrder ::
  "Order \<Rightarrow> decimal \<Rightarrow> OrderBook \<Rightarrow> MatchResult \<Rightarrow> Order \<times> OrderBook \<times> MatchResult" where
  "updateCurrentOrder order remainingAmount orderBook result =
     (let orderAmount = decOf (Order.Amount order)
      in if remainingAmount = 0 then
           (let order1 = order\<lparr>Status := 3, FilledAmount := Some orderAmount\<rparr>
            in (order1, orderBook, result\<lparr>FilledOrders := FilledOrders result @ [order1]\<rparr>))
         else if remainingAmount < orderAmount then
           (let filledAmount = orderAmount - remainingAmount;
                order1 = order\<lparr>Status := 2, FilledAmount := Some filledAmount,
                               Order.Amount := Some remainingAmount\<rparr>
            in (order1, OrderBook_AddOrder orderBook order1,
                result\<lparr>UpdatedOrders := UpdatedOrders result @ [order1]\<rparr>))
         else
           (let order1 = order\<lparr>Status := 1\<rparr>
            in (order1, OrderBook_AddOrder orderBook order1,
                result\<lparr>UpdatedOrders := UpdatedOrders result @ [order1]\<rparr>)))"

definition processLimitOrder ::
  "Order \<Rightarrow> OrderBook \<Rightarrow> MatchResult \<Rightarrow> (panic + Order \<times> OrderBook \<times> MatchResult) option" where
  "processLimitOrder order orderBook result =
     (let orderPrice = decOf (Order.Price order);
          orderAmount = decOf (Order.Amount order)
      in case matchLoop order (Some orderPrice) orderAmount orderBook result of
           None \<Rightarrow> None
         | Some (Inl p) \<Rightarrow> Some (Inl p)
         | Some (Inr (remainingAmount, orderBook1, result1)) \<Rightarrow>
             Some (Inr (updateCurrentOrder order remainingAmount orderBook1 result1)))"

definition processMarketOrder ::
  "Order \<Rightarrow> OrderBook \<Rightarrow> MatchResult \<Rightarrow> (panic + Order \<times> OrderBook \<times> MatchResult) option" where
  "processMarketOrder order orderBook result =
     (let orderAmount = decOf (Order.Amount order)
      in case matchLoop order None orderAmount orderBook result of
           None \<Rightarrow> None
         | Some (Inl p) \<Rightarrow> Some (Inl p)
         | Some (Inr (remainingAmount, orderBook1, result1)) \<Rightarrow>
             if remainingAmount < orderAmount then
               (let filledAmount = decOf (FilledAmount order);
                    order1 = order\<lparr>FilledAmount := Some (filledAmount + (orderAmount - remainingAmount))\<rparr>
                in if remainingAmount = 0 then
                     (let order2 = order1\<lparr>Status := 3\<rparr>
                      in Some (Inr (order2, orderBook1,
                           result1\<lparr>FilledOrders := FilledOrders result1 @ [order2],
                                   UpdatedOrders := UpdatedOrders result1 @ [order2]\<rparr>)))
                   else
                     (let order2 = order1\<lparr>Status := 4\<rparr>
                      in Some (Inr (order2, orderBook1,
                           result1\<lparr>UpdatedOrders := UpdatedOrders result1 @ [order2]\<rparr>))))
             else Some (Inr (order, orderBook1, result1)))"

text \<open>
  \<^verbatim>\<open>ProcessOrder\<close>. The Go function returns a result or an error and leaves its
  effects in the order and in the engine; the model returns all of it: \<open>Failed\<close> with the
  error and the engine, \<open>Processed\<close> with the result, the order and the engine. The
  book is fetched (and created) before the order type is looked at.
\<close>

datatype ProcessResult =
  Failed string MatchingEngine
| Processed MatchResult Order MatchingEngine

definition ProcessOrder :: "MatchingEngine \<Rightarrow> Order option \<Rightarrow> (panic + ProcessResult) option" where
  "ProcessOrder me orderPtr =
     (case orderPtr of
        None \<Rightarrow> Some (Inr (Failed ''order cannot be nil'' me))
      | Some order \<Rightarrow>
          (let (orderBook, me1) = GetOrderBook me (Order.Symbol order);
               result = \<lparr>Trades = [], UpdatedOrders = [], FilledOrders = []\<rparr>;
               run = (if Type order = 1 then Some (processLimitOrder order orderBook result)
                      else if Type order = 2 then Some (processMarketOrder order orderBook result)
                      else None)
           in case run of
                None \<Rightarrow> Some (Inr (Failed ''unsupported order type'' me1))
              | Some None \<Rightarrow> None
              | Some (Some (Inl p)) \<Rightarrow> Some (Inl p)
              | Some (Some (Inr (order1, orderBook1, result1))) \<Rightarrow>
                  Some (Inr (Processed result1 order1
                     (me1\<lparr>orderBooks := (orderBooks me1)(Order.Symbol order \<mapsto> orderBook1)\<rparr>)))))"

text \<open>\<^verbatim>\<open>MatchingEngine.CancelOrder\<close>.\<close>

definition MatchingEngine_CancelOrder :: "MatchingEngine \<Rightarrow> Order \<Rightarrow> Order \<times> MatchingEngine" where
  "MatchingEngine_CancelOrder me order =
     (let (orderBook, me1) = GetOrderBook me (Order.Symbol order);
          orderBook1 = OrderBook_RemoveOrder orderBook order
      in (order\<lparr>Status := 4\<rparr>,
          me1\<lparr>orderBooks := (orderBooks me1)(Order.Symbol order \<mapsto> orderBook1)\<rparr>))"

section \<open>Persistence and the trading services\<close>

text \<open>
  The tables behind the go-zero models, reduced to what the trading services read and
  write. A table is a map from its key: order rows by id, balance rows by user and
  currency (the schema declares \<^verbatim>\<open>UNIQUE(user_id, currency)\<close>), trading pairs by
  symbol (\<^verbatim>\<open>UNIQUE\<close> as well). A failing database connection is not modelled: a
  query either finds its row or reports \<^verbatim>\<open>ErrNotFound\<close>, and a statement takes
  effect.

  Every statement of the models runs on the connection pool (\<^verbatim>\<open>m.conn.ExecCtx\<close>,
  \<^verbatim>\<open>m.conn.QueryRowCtx\<close>), also inside the closure handed to \<^verbatim>\<open>Trans\<close>, which
  never uses the \<^verbatim>\<open>sqlx.Session\<close> it is given. So a statement is in effect as soon
  as it has run, and a closure that fails leaves behind what it wrote before the failure.
  The services below therefore hand back the tables as they are at the moment of the
  return, on success and on failure alike.
\<close>

datatype error =
  ErrNotFound
| ErrUnauthorized
| ErrForbidden
| ErrInsufficientBalance
| ErrInvalidAmount
| ErrOrderNotFound
| ErrOrderAlreadyCanceled
| ErrOrderAlreadyFilled
| ErrorsNew string

record Balance =
  UserID :: nat
  Currency :: string
  Available :: dstring
  Frozen :: dstring

record TradingPair =
  Symbol :: string
  BaseCurrency :: string
  QuoteCurrency :: string
  Status :: int

text \<open>\<^verbatim>\<open>svc.ServiceContext\<close>: the models and the engine shared by all requests.\<close>

record ServiceContext =
  BalanceModel :: "nat \<times> string \<rightharpoonup> Balance"
  OrderModel :: "nat \<rightharpoonup> Order"
  TradeModel :: "Trade list"
  TradingPairModel :: "string \<rightharpoonup> TradingPair"
  MatchingEngine :: MatchingEngine

subsection \<open>The balance model\<close>

definition FindByUserIDAndCurrency ::
  "(nat \<times> string \<rightharpoonup> Balance) \<Rightarrow> nat \<Rightarrow> string \<Rightarrow> error + Balance" where
  "FindByUserIDAndCurrency tbl userID currency =
     (case tbl (userID, currency) of None \<Rightarrow> Inl ErrNotFound | Some balance \<Rightarrow> Inr balance)"

text \<open>\<^verbatim>\<open>UPDATE balances SET available, frozen WHERE user_id AND currency\<close>.\<close>

definition UpdateBalance ::
  "(nat \<times> string \<rightharpoonup> Balance) \<Rightarrow> nat \<Rightarrow> string \<Rightarrow> dstring \<Rightarrow> dstring
     \<Rightarrow> (nat \<times> string \<rightharpoonup> Balance)" where
  "UpdateBalance tbl userID currency available frozen =
     (case tbl (userID, currency) of
        None \<Rightarrow> tbl
      | Some balance \<Rightarrow>
          tbl((userID, currency) \<mapsto> balance\<lparr>Available := available, Frozen := frozen\<rparr>))"

definition FreezeBalance ::
  "(nat \<times> string \<rightharpoonup> Balance) \<Rightarrow> nat \<Rightarrow> string \<Rightarrow> dstring
     \<Rightarrow> error + (nat \<times> string \<rightharpoonup> Balance)" where
  "FreezeBalance tbl userID currency amount =
     (case amount of
        None \<Rightarrow> Inl (ErrorsNew ''invalid freeze amount format'')
      | Some freezeAmount \<Rightarrow>
          if freezeAmount \<le> 0 then Inl (ErrorsNew ''freeze amount must be positive'')
          else (case FindByUserIDAndCurrency tbl userID currency of
                  Inl err \<Rightarrow> Inl err
                | Inr balance \<Rightarrow>
                    (case Available balance of
                       None \<Rightarrow> Inl (ErrorsNew ''invalid current available balance format'')
                     | Some currentAvailable \<Rightarrow>
                         (case Frozen balance of
                            None \<Rightarrow> Inl (ErrorsNew ''invalid current frozen balance format'')
                          | Some currentFrozen \<Rightarrow>
                              if currentAvailable < freezeAmount then Inl ErrInsufficientBalance
                              else Inr (UpdateBalance tbl userID currency
                                          (Some (currentAvailable - freezeAmount))
                                          (Some (currentFrozen + freezeAmount)))))))"

definition UnfreezeBalance ::
  "(nat \<times> string \<rightharpoonup> Balance) \<Rightarrow> nat \<Rightarrow> string \<Rightarrow> dstring
     \<Rightarrow> error + (nat \<times> string \<rightharpoonup> Balance)" where
  "UnfreezeBalance tbl userID currency amount =
     (case amount of
        None \<Rightarrow> Inl (ErrorsNew ''invalid unfreeze amount format'')
      | Some unfreezeAmount \<Rightarrow>
          if unfreezeAmount \<le> 0 then Inl (ErrorsNew ''unfreeze amount must be positive'')
          else (case FindByUserIDAndCurrency tbl userID currency of
                  Inl err \<Rightarrow> Inl err
                | Inr balance \<Rightarrow>
                    (case Available balance of
                       None \<Rightarrow> Inl (ErrorsNew ''invalid current available balance format'')
                     | Some currentAvailable \<Rightarrow>
                         (case Frozen balance of
                            None \<Rightarrow> Inl (ErrorsNew ''invalid current frozen balance format'')
                          | Some currentFrozen \<Rightarrow>
                              if currentFrozen < unfreezeAmount
                              then Inl (ErrorsNew ''insufficient frozen balance'')
                              else Inr (UpdateBalance tbl userID currency
                                          (Some (currentAvailable + unfreezeAmount))
                                          (Some (currentFrozen - unfreezeAmount)))))))"

subsection \<open>The order model\<close>

text \<open>\<^verbatim>\<open>UPDATE orders SET status WHERE id\<close> and the full-row
  \<^verbatim>\<open>Update\<close> (user, symbol, type, side, amount, price, filled amount, status).\<close>

definition UpdateStatus :: "(nat \<rightharpoonup> Order) \<Rightarrow> nat \<Rightarrow> int \<Rightarrow> (nat \<rightharpoonup> Order)" where
  "UpdateStatus tbl i status =
     (case tbl i of None \<Rightarrow> tbl | Some row \<Rightarrow> tbl(i \<mapsto> row\<lparr>Order.Status := status\<rparr>))"

definition OrderModel_Update :: "(nat \<rightharpoonup> Order) \<Rightarrow> Order \<Rightarrow> (nat \<rightharpoonup> Order)" where
  "OrderModel_Update tbl data = (case tbl (ID data) of None \<Rightarrow> tbl | Some _ \<Rightarrow> tbl(ID data \<mapsto> data))"

subsection \<open>Cancelling an order\<close>

text \<open>What \<^verbatim>\<open>l.ctx.Value("userId")\<close> finds in the request context: \<^verbatim>\<open>nil\<close>, a
  string, or a value of another type.\<close>

datatype ctxValue = NoValue | StringValue string | OtherValue

text \<open>\<^verbatim>\<open>strconv.ParseUint(s, 10, 64)\<close>: \<open>s\<close> is not empty, consists of decimal
  digits only (no sign, no underscore) and denotes a number below \<open>2 ^ 64\<close>; anything
  else is an error, here \<open>None\<close>.\<close>

fun parseDigits :: "nat \<Rightarrow> string \<Rightarrow> nat option" where
  "parseDigits n [] = Some n"
| "parseDigits n (c # cs) =
     (if 48 \<le> (of_char c :: nat) \<and> (of_char c :: nat) \<le> 57
      then parseDigits (10 * n + (of_char c - 48)) cs
      else None)"

definition ParseUint :: "string \<Rightarrow> nat option" where
  "ParseUint s =
     (if s = [] then None
      else (case parseDigits 0 s of
              None \<Rightarrow> None
            | Some n \<Rightarrow> if n < 2 ^ 64 then Some n else None))"

text \<open>\<^verbatim>\<open>getUserIDFromContext\<close>. The type assertion \<^verbatim>\<open>userIDStr.(string)\<close> has no
  \<^verbatim>\<open>ok\<close> result: on a value that is not a string it panics.\<close>

definition getUserIDFromContext :: "ctxValue \<Rightarrow> panic + (error + nat)" where
  "getUserIDFromContext userIDStr =
     (case userIDStr of
        NoValue \<Rightarrow> Inr (Inl ErrUnauthorized)
      | OtherValue \<Rightarrow> Inl InterfaceConversion
      | StringValue str \<Rightarrow>
          (case ParseUint str of
             None \<Rightarrow> Inr (Inl ErrUnauthorized)
           | Some userID \<Rightarrow> Inr (Inr userID)))"

text \<open>The amount comes back as a string; \<^verbatim>\<open>"0"\<close> is \<open>Some 0\<close>.\<close>

definition calculateUnfreezeAmount :: "Order \<Rightarrow> TradingPair \<Rightarrow> error + string \<times> dstring" where
  "calculateUnfreezeAmount order tradingPair =
     (case Order.Amount order of
        None \<Rightarrow> Inl ErrInvalidAmount
      | Some orderAmount \<Rightarrow>
          (case FilledAmount order of
             None \<Rightarrow> Inl ErrInvalidAmount
           | Some filledAmount \<Rightarrow>
               (let remainingAmount = orderAmount - filledAmount
                in if remainingAmount \<le> 0 then Inr ([], Some 0)
                   else if Order.Side order = 1 then
                     (if Order.Type order = 1 then
                        (case Order.Price order of
                           None \<Rightarrow> Inl (ErrorsNew ''invalid price format'')
                         | Some price \<Rightarrow> Inr (QuoteCurrency tradingPair, Some (remainingAmount * price)))
                      else Inr (QuoteCurrency tradingPair, Some remainingAmount))
                   else Inr (BaseCurrency tradingPair, Some remainingAmount))))"

text \<open>
  \<^verbatim>\<open>CancelOrderLogic.CancelOrder\<close>. A panic of \<^verbatim>\<open>getUserIDFromContext\<close> ends
  the call before anything is read or written. Otherwise the result is the response or
  the error, together with the service context the call leaves behind. Inside the
  closure the status is written first; when the unfreeze then fails, the error is
  returned and the order's row keeps status 4.
\<close>

datatype BaseResponse = BaseResponse int string

definition CancelOrder ::
  "ServiceContext \<Rightarrow> ctxValue \<Rightarrow> nat \<Rightarrow> panic + (error + BaseResponse) \<times> ServiceContext" where
  "CancelOrder svcCtx ctx orderID =
     (case getUserIDFromContext ctx of
        Inl p \<Rightarrow> Inl p
      | Inr (Inl err) \<Rightarrow> Inr (Inl err, svcCtx)
      | Inr (Inr userID) \<Rightarrow>
          Inr (case OrderModel svcCtx orderID of
             None \<Rightarrow> (Inl ErrOrderNotFound, svcCtx)
           | Some order \<Rightarrow>
               if Order.UserID order \<noteq> userID then (Inl ErrForbidden, svcCtx)
               else if Order.Status order = 4 then (Inl ErrOrderAlreadyCanceled, svcCtx)
               else if Order.Status order = 3 then (Inl ErrOrderAlreadyFilled, svcCtx)
               else (case TradingPairModel svcCtx (Order.Symbol order) of
                       None \<Rightarrow> (Inl ErrNotFound, svcCtx)
                     | Some tradingPair \<Rightarrow>
                         (case calculateUnfreezeAmount order tradingPair of
                            Inl err \<Rightarrow> (Inl err, svcCtx)
                          | Inr (unfreezeCurrency, unfreezeAmount) \<Rightarrow>
                              (let svcCtx1 = svcCtx\<lparr>OrderModel :=
                                                UpdateStatus (OrderModel svcCtx) (ID order) 4\<rparr>;
                                   unfrozen =
                                     (if unfreezeAmount \<noteq> Some 0
                                      then UnfreezeBalance (BalanceModel svcCtx1) userID
                                             unfreezeCurrency unfreezeAmount
                                      else Inr (BalanceModel svcCtx1))
                               in case unfrozen of
                                    Inl err \<Rightarrow> (Inl err, svcCtx1)
                                  | Inr balances1 \<Rightarrow>
                                      (Inr (BaseResponse 0 ''Order canceled successfully''),
                                       svcCtx1\<lparr>BalanceModel := balances1\<rparr>))))))"

subsection \<open>Placing an order: the freeze\<close>

text \<open>The fields of \<^verbatim>\<open>types.CreateOrderRequest\<close> that \<^verbatim>\<open>calculateFreezeAmount\<close>
  reads. The market-buy branch hands the request's amount string back as it came.\<close>

record CreateOrderRequest =
  Symbol :: string
  Type :: int
  Side :: int
  Amount :: dstring
  Price :: dstring

definition calculateFreezeAmount ::
  "CreateOrderRequest \<Rightarrow> TradingPair \<Rightarrow> error + string \<times> dstring" where
  "calculateFreezeAmount req tradingPair =
     (case CreateOrderRequest.Amount req of
        None \<Rightarrow> Inl ErrInvalidAmount
      | Some orderAmount \<Rightarrow>
          if CreateOrderRequest.Side req = 1 then
            (if CreateOrderRequest.Type req = 1 then
               (case CreateOrderRequest.Price req of
                  None \<Rightarrow> Inl (ErrorsNew ''invalid price format'')
                | Some price \<Rightarrow> Inr (QuoteCurrency tradingPair, Some (orderAmount * price)))
             else Inr (QuoteCurrency tradingPair, CreateOrderRequest.Amount req))
          else Inr (BaseCurrency tradingPair, Some orderAmount))"

subsection \<open>Settlement\<close>

text \<open>\<^verbatim>\<open>parseSymbol\<close> cuts the symbol at its first slash; neither part may be
  empty.\<close>

definition parseSymbol :: "string \<Rightarrow> error + string \<times> string" where
  "parseSymbol symbol =
     (let before = takeWhile (\<lambda>c. c \<noteq> CHR ''/'') symbol;
          from = dropWhile (\<lambda>c. c \<noteq> CHR ''/'') symbol
      in case from of
           [] \<Rightarrow> Inl (ErrorsNew ''invalid symbol format: no separator found'')
         | _ # after \<Rightarrow>
             if before = [] \<or> after = [] then Inl (ErrorsNew ''invalid symbol format'')
             else Inr (before, after))"

text \<open>
  \<^verbatim>\<open>balanceChanges\<close> is a Go map from \<^verbatim>\<open>userID_currency\<close> to the net
  change, read with zero for a missing key. The key string is modelled by the pair it
  encodes (\<^verbatim>\<open>parseUserCurrencyKey\<close> undoes \<^verbatim>\<open>getUserCurrencyKey\<close> for every
  currency that \<^verbatim>\<open>parseSymbol\<close> returns, since those are not empty). The map is an
  association list with one entry for each key.
\<close>

type_synonym balanceChanges = "((nat \<times> string) \<times> decimal) list"

definition changeOf :: "balanceChanges \<Rightarrow> nat \<times> string \<Rightarrow> decimal" where
  "changeOf changes key = (case map_of changes key of None \<Rightarrow> 0 | Some amount \<Rightarrow> amount)"

fun setChange :: "balanceChanges \<Rightarrow> nat \<times> string \<Rightarrow> decimal \<Rightarrow> balanceChanges" where
  "setChange [] key amount = [(key, amount)]"
| "setChange ((k, v) # rest) key amount =
     (if k = key then (k, amount) # rest else (k, v) # setChange rest key amount)"

definition applyBalanceChange ::
  "(nat \<times> string \<rightharpoonup> Balance) \<Rightarrow> nat \<Rightarrow> string \<Rightarrow> decimal
     \<Rightarrow> error + (nat \<times> string \<rightharpoonup> Balance)" where
  "applyBalanceChange tbl userID currency amount =
     (if amount = 0 then Inr tbl
      else (case FindByUserIDAndCurrency tbl userID currency of
              Inl err \<Rightarrow>
                Inr (tbl((userID, currency) \<mapsto>
                       \<lparr>UserID = userID, Currency = currency,
                        Available = Some amount, Frozen = Some 0\<rparr>))
            | Inr balance \<Rightarrow>
                (let currentAvailable = decOf (Available balance);
                     newAvailable = currentAvailable + amount
                 in if newAvailable < 0
                    then Inl (ErrorsNew ''insufficient balance after trade execution'')
                    else Inr (UpdateBalance tbl userID currency (Some newAvailable)
                                (Frozen balance)))))"

text \<open>The first loop of \<^verbatim>\<open>updateUserBalances\<close>: the four changes of each trade
  are added to the map.\<close>

fun collectChanges :: "balanceChanges \<Rightarrow> Trade list \<Rightarrow> error + balanceChanges" where
  "collectChanges changes [] = Inr changes"
| "collectChanges changes (trade # trades) =
     (let tradePrice = decOf (Trade.Price trade);
          tradeAmount = decOf (Trade.Amount trade);
          totalValue = tradePrice * tradeAmount
      in case parseSymbol (Trade.Symbol trade) of
           Inl err \<Rightarrow> Inl err
         | Inr (baseCurrency, quoteCurrency) \<Rightarrow>
             (let buyerQuoteKey = (BuyUserID trade, quoteCurrency);
                  buyerBaseKey = (BuyUserID trade, baseCurrency);
                  changes1 = setChange changes buyerQuoteKey (changeOf changes buyerQuoteKey - totalValue);
                  changes2 = setChange changes1 buyerBaseKey (changeOf changes1 buyerBaseKey + tradeAmount);
                  sellerBaseKey = (SellUserID trade, baseCurrency);
                  sellerQuoteKey = (SellUserID trade, quoteCurrency);
                  changes3 = setChange changes2 sellerBaseKey (changeOf changes2 sellerBaseKey - tradeAmount);
                  changes4 = setChange changes3 sellerQuoteKey (changeOf changes3 sellerQuoteKey + totalValue)
              in collectChanges changes4 trades))"

text \<open>The second loop, \<^verbatim>\<open>for userCurrencyKey, amount := range balanceChanges\<close>:
  every entry is applied; the first failure ends the loop, and the rows written before it
  stay written.\<close>

fun applyChanges ::
  "(nat \<times> string \<rightharpoonup> Balance) \<Rightarrow> balanceChanges
     \<Rightarrow> error option \<times> (nat \<times> string \<rightharpoonup> Balance)" where
  "applyChanges tbl [] = (None, tbl)"
| "applyChanges tbl ((key, amount) # rest) =
     (case applyBalanceChange tbl (fst key) (snd key) amount of
        Inl err \<Rightarrow> (Some err, tbl)
      | Inr tbl1 \<Rightarrow> applyChanges tbl1 rest)"

text \<open>
  \<^verbatim>\<open>updateUserBalances\<close>. Go walks the entries of a map in an order of its own
  choosing, which may differ from one \<^verbatim>\<open>range\<close> to the next. That choice is the
  parameter \<open>rangeOrder\<close>: it is given the entries and returns them in the order in which
  the loop visits them.
\<close>

definition updateUserBalances ::
  "(balanceChanges \<Rightarrow> balanceChanges) \<Rightarrow> (nat \<times> string \<rightharpoonup> Balance) \<Rightarrow> Trade list
     \<Rightarrow> error option \<times> (nat \<times> string \<rightharpoonup> Balance)" where
  "updateUserBalances rangeOrder tbl trades =
     (case collectChanges [] trades of
        Inl err \<Rightarrow> (Some err, tbl)
      | Inr balanceChanges \<Rightarrow> applyChanges tbl (rangeOrder balanceChanges))"

fun unfreezeCompletedOrderBalances ::
  "(nat \<times> string \<rightharpoonup> Balance) \<Rightarrow> Order list \<Rightarrow> error option \<times> (nat \<times> string \<rightharpoonup> Balance)" where
  "unfreezeCompletedOrderBalances tbl [] = (None, tbl)"
| "unfreezeCompletedOrderBalances tbl (order # filledOrders) =
     (if Order.Status order \<noteq> 3 then unfreezeCompletedOrderBalances tbl filledOrders
      else (case parseSymbol (Order.Symbol order) of
              Inl err \<Rightarrow> (Some err, tbl)
            | Inr (baseCurrency, quoteCurrency) \<Rightarrow>
                (let orderAmount = decOf (Order.Amount order);
                     (currency, unfreezeAmount) =
                        (if Order.Side order = 1
                         then (quoteCurrency, orderAmount * decOf (Order.Price order))
                         else (baseCurrency, orderAmount))
                 in case UnfreezeBalance tbl (Order.UserID order) currency (Some unfreezeAmount) of
                      Inl err \<Rightarrow> (Some err, tbl)
                    | Inr tbl1 \<Rightarrow> unfreezeCompletedOrderBalances tbl1 filledOrders)))"

text \<open>
  \<^verbatim>\<open>executeTrades\<close>: the closure records the trades, writes the updated orders,
  moves the balances and releases the freeze of the filled orders. When a step fails
  the closure returns its error; the trade rows, order rows and balance rows written
  up to there stay.
\<close>

definition executeTrades ::
  "(balanceChanges \<Rightarrow> balanceChanges) \<Rightarrow> ServiceContext \<Rightarrow> MatchResult
     \<Rightarrow> error option \<times> ServiceContext" where
  "executeTrades rangeOrder svcCtx matchResult =
     (if length (Trades matchResult) = 0 then (None, svcCtx)
      else
        (let svcCtx1 = svcCtx\<lparr>TradeModel := TradeModel svcCtx @ Trades matchResult\<rparr>;
             svcCtx2 = svcCtx1\<lparr>OrderModel :=
                         foldl OrderModel_Update (OrderModel svcCtx1) (UpdatedOrders matchResult)\<rparr>;
             (err3, balances3) =
                updateUserBalances rangeOrder (BalanceModel svcCtx2) (Trades matchResult);
             svcCtx3 = svcCtx2\<lparr>BalanceModel := balances3\<rparr>
         in case err3 of
              Some err \<Rightarrow> (Some err, svcCtx3)
            | None \<Rightarrow>
                (let (err4, balances4) =
                       unfreezeCompletedOrderBalances (BalanceModel svcCtx3) (FilledOrders matchResult)
                 in (err4, svcCtx3\<lparr>BalanceModel := balances4\<rparr>))))"

text \<open>
  \<^verbatim>\<open>ProcessOrderWithMatching\<close>: the engine matches the order, the trades are
  settled, and the order's row is written. What the match did to the book stays when
  the settlement fails, and so does what the settlement wrote. \<open>None\<close> is a run of the
  engine that does not return, \<open>Inl\<close> a panic.
\<close>

definition ProcessOrderWithMatching ::
  "(balanceChanges \<Rightarrow> balanceChanges) \<Rightarrow> ServiceContext \<Rightarrow> Order
     \<Rightarrow> (panic + error option \<times> Order \<times> ServiceContext) option" where
  "ProcessOrderWithMatching rangeOrder svcCtx order =
     (case ProcessOrder (MatchingEngine svcCtx) (Some order) of
        None \<Rightarrow> None
      | Some (Inl p) \<Rightarrow> Some (Inl p)
      | Some (Inr (Failed msg me1)) \<Rightarrow>
          Some (Inr (Some (ErrorsNew msg), order, svcCtx\<lparr>MatchingEngine := me1\<rparr>))
      | Some (Inr (Processed matchResult order1 me1)) \<Rightarrow>
          (let svcCtx1 = svcCtx\<lparr>MatchingEngine := me1\<rparr>;
               (err, svcCtx2) =
                  (if length (Trades matchResult) > 0 then executeTrades rangeOrder svcCtx1 matchResult
                   else (None, svcCtx1))
           in case err of
                Some e \<Rightarrow> Some (Inr (Some e, order1, svcCtx2))
              | None \<Rightarrow>
                  Some (Inr (None, order1,
                     svcCtx2\<lparr>OrderModel := OrderModel_Update (OrderModel svcCtx2) order1\<rparr>))))"

section \<open>Invariants of the book\<close>

definition ladder :: "bool \<Rightarrow> OrderBook \<Rightarrow> decimal \<rightharpoonup> PriceLevel" where
  "ladder a ob = (if a then Asks ob else Bids ob)"

definition prices :: "bool \<Rightarrow> OrderBook \<Rightarrow> decimal list" where
  "prices a ob = (if a then AskPrices ob else BidPrices ob)"

definition better :: "bool \<Rightarrow> decimal \<Rightarrow> decimal \<Rightarrow> bool" where
  "better a p q = (if a then p < q else q < p)"

definition restingOK :: "bool \<Rightarrow> decimal \<Rightarrow> Order \<Rightarrow> bool" where
  "restingOK a p order =
     (decOf (Order.Price order) = p \<and> (Order.Side order \<noteq> 1) = a \<and> 0 \<le> decOf (FilledAmount order))"

definition levelOK :: "bool \<Rightarrow> decimal \<Rightarrow> PriceLevel option \<Rightarrow> bool" where
  "levelOK a p l =
     (case l of
        None \<Rightarrow> False
      | Some lv \<Rightarrow> PriceLevel.Price lv = p \<and> Orders lv \<noteq> [] \<and> list_all (restingOK a p) (Orders lv))"

definition wfSide :: "bool \<Rightarrow> OrderBook \<Rightarrow> bool" where
  "wfSide a ob =
     (sorted_wrt (better a) (prices a ob) \<and> dom (ladder a ob) = set (prices a ob) \<and>
      list_all (\<lambda>p. levelOK a p (ladder a ob p)) (prices a ob))"

definition wfBook :: "OrderBook \<Rightarrow> bool" where
  "wfBook ob = (wfSide True ob \<and> wfSide False ob)"

definition makerTrade :: "bool \<Rightarrow> Order \<Rightarrow> Order \<Rightarrow> decimal \<Rightarrow> decimal \<Rightarrow> Trade" where
  "makerTrade a order m p x = (if a then createTrade order m p x else createTrade m order p x)"

text \<open>The resting orders of one side in the order the matcher reaches them.\<close>

definition levelOrders :: "PriceLevel option \<Rightarrow> Order list" where
  "levelOrders l = (case l of None \<Rightarrow> [] | Some lv \<Rightarrow> Orders lv)"

definition queue :: "bool \<Rightarrow> OrderBook \<Rightarrow> Order list" where
  "queue a ob = concat (map (\<lambda>p. levelOrders (ladder a ob p)) (prices a ob))"

definition insertPrice :: "bool \<Rightarrow> decimal list \<Rightarrow> decimal \<Rightarrow> decimal list" where
  "insertPrice a xs p = (if a then sort (xs @ [p]) else rev (sort (xs @ [p])))"

definition bookOf :: "MatchingEngine \<Rightarrow> string \<Rightarrow> OrderBook" where
  "bookOf me symbol = fst (GetOrderBook me symbol)"

definition emptyResult :: MatchResult where
  "emptyResult = \<lparr>Trades = [], UpdatedOrders = [], FilledOrders = []\<rparr>"

definition uncrossed :: "OrderBook \<Rightarrow> bool" where
  "uncrossed ob = (\<forall>b \<in> set (BidPrices ob). \<forall>a \<in> set (AskPrices ob). b < a)"

definition bookInv :: "OrderBook \<Rightarrow> bool" where
  "bookInv ob = (wfBook ob \<and> uncrossed ob)"

fun engineAfter :: "ProcessResult \<Rightarrow> MatchingEngine" where
  "engineAfter (Failed msg me) = me"
| "engineAfter (Processed res order me) = me"

definition guardOf :: "Order \<Rightarrow> decimal option" where
  "guardOf order = (if Order.Type order = 1 then Some (decOf (Order.Price order)) else None)"

text \<open>What the loop keeps of the book it started from: prices are only removed from
  the walked side, the other side is not touched, the remainder does not go below zero.\<close>

definition loopFrame :: "bool \<Rightarrow> OrderBook \<Rightarrow> decimal \<Rightarrow> OrderBook \<Rightarrow> bool" where
  "loopFrame a ob0 r ob =
     (0 \<le> r \<and> set (prices a ob) \<subseteq> set (prices a ob0) \<and>
      prices (\<not> a) ob = prices (\<not> a) ob0 \<and> ladder (\<not> a) ob = ladder (\<not> a) ob0 \<and>
      OrderBook.Symbol ob = OrderBook.Symbol ob0)"

definition makerOrderID :: "bool \<Rightarrow> Trade \<Rightarrow> nat" where
  "makerOrderID a t = (if a then SellOrderID t else BuyOrderID t)"

definition takerOrderID :: "bool \<Rightarrow> Trade \<Rightarrow> nat" where
  "takerOrderID a t = (if a then BuyOrderID t else SellOrderID t)"

text \<open>Trade \<open>t\<close> is a trade of the incoming order with the resting order \<open>m\<close>, at the
  price of \<open>m\<close>.\<close>

definition tradeWith :: "bool \<Rightarrow> Order \<Rightarrow> Trade \<Rightarrow> Order \<Rightarrow> bool" where
  "tradeWith a order t m =
     (makerOrderID a t = ID m \<and> takerOrderID a t = ID order \<and>
      Trade.Price t = Some (decOf (Order.Price m)))"

text \<open>The makers matched so far are the resting orders the queue began with, in
  order; while the incoming order has a remainder, the rest of the queue is untouched.\<close>

definition makersInv :: "bool \<Rightarrow> Order \<Rightarrow> OrderBook \<Rightarrow> decimal \<Rightarrow> OrderBook \<Rightarrow> MatchResult \<Rightarrow> bool" where
  "makersInv a order ob0 r ob res =
     (\<exists>ms. list_all2 (tradeWith a order) (Trades res) ms \<and> prefix ms (queue a ob0) \<and>
           (0 < r \<longrightarrow> queue a ob0 = ms @ queue a ob))"

text \<open>A partially consumed maker \<open>u\<close>: it is still in the queue, and against the
  resting order \<open>m\<close> it was before the call its filled amount has grown and its amount
  has been replaced by what was left.\<close>

definition overwritten :: "bool \<Rightarrow> OrderBook \<Rightarrow> OrderBook \<Rightarrow> Order \<Rightarrow> bool" where
  "overwritten a ob0 ob u =
     (u \<in> set (queue a ob) \<and>
      (\<exists>m \<in> set (queue a ob0).
          ID u = ID m \<and>
          Order.Amount u = Some (decOf (Order.Amount m) - decOf (FilledAmount u)) \<and>
          decOf (FilledAmount m) < decOf (FilledAmount u) \<and>
          decOf (Order.Amount u) < decOf (Order.Amount m)))"

definition updatedInv :: "bool \<Rightarrow> Order \<Rightarrow> OrderBook \<Rightarrow> decimal \<Rightarrow> OrderBook \<Rightarrow> MatchResult \<Rightarrow> bool" where
  "updatedInv a order ob0 r ob res =
     (makersInv a order ob0 r ob res \<and> (UpdatedOrders res \<noteq> [] \<longrightarrow> r = 0) \<and>
      (\<forall>u \<in> set (UpdatedOrders res). Order.Status u = 2 \<and> overwritten a ob0 ob u))"


section \<open>Balance changes of a settlement\<close>




section \<open>Scenarios\<close>

text \<open>Concrete orders, books and tables on which the theorems below are exercised:
  the pair \<^verbatim>\<open>BTC/USDT\<close>, a new order as \<^verbatim>\<open>CreateOrder\<close> builds it (nothing
  filled, pending).\<close>

definition newOrder :: "nat \<Rightarrow> nat \<Rightarrow> int \<Rightarrow> int \<Rightarrow> dstring \<Rightarrow> dstring \<Rightarrow> Order" where
  "newOrder i u t s a p =
     \<lparr>ID = i, Order.UserID = u, Order.Symbol = ''BTC/USDT'', Order.Type = t, Order.Side = s,
      Order.Amount = a, Order.Price = p, FilledAmount = Some 0, Order.Status = 1\<rparr>"

definition btcUsdt :: TradingPair where
  "btcUsdt = \<lparr>TradingPair.Symbol = ''BTC/USDT'', BaseCurrency = ''BTC'', QuoteCurrency = ''USDT'',
              TradingPair.Status = 1\<rparr>"

definition engineOf :: "OrderBook \<Rightarrow> MatchingEngine" where
  "engineOf ob = \<lparr>orderBooks = [''BTC/USDT'' \<mapsto> ob]\<rparr>"

text \<open>User 1 owns order 7, a limit buy of 10 at 100 of which 3 are filled; the order
  is given in each of its states.\<close>

definition orderSeven :: "int \<Rightarrow> Order" where
  "orderSeven st = (newOrder 7 1 1 1 (Some 10) (Some 100))\<lparr>FilledAmount := Some 3, Order.Status := st\<rparr>"

definition cancelCtx :: "int \<Rightarrow> ServiceContext" where
  "cancelCtx st =
     \<lparr>BalanceModel = [(1, ''USDT'') \<mapsto> \<lparr>Balance.UserID = 1, Currency = ''USDT'',
                                         Available = Some 50, Frozen = Some 1000\<rparr>],
      OrderModel = [7 \<mapsto> orderSeven st],
      TradeModel = [],
      TradingPairModel = [''BTC/USDT'' \<mapsto> btcUsdt],
      MatchingEngine = NewMatchingEngine\<rparr>"

text \<open>A book with one bid (order 1: buy 10 at 90) and three asks in two levels
  (orders 2 and 3: sell 4 and sell 5 at 100, in that order of arrival; order 4: sell 10
  at 101).\<close>

definition sampleBook :: OrderBook where
  "sampleBook =
     \<lparr>OrderBook.Symbol = ''BTC/USDT'',
      Bids = [90 \<mapsto> \<lparr>PriceLevel.Price = 90,
                      Orders = [newOrder 1 1 1 1 (Some 10) (Some 90)], Total = 10\<rparr>],
      Asks = [100 \<mapsto> \<lparr>PriceLevel.Price = 100,
                       Orders = [newOrder 2 2 1 2 (Some 4) (Some 100),
                                 newOrder 3 3 1 2 (Some 5) (Some 100)], Total = 9\<rparr>,
              101 \<mapsto> \<lparr>PriceLevel.Price = 101,
                       Orders = [newOrder 4 4 1 2 (Some 10) (Some 101)], Total = 10\<rparr>],
      BidPrices = [90],
      AskPrices = [100, 101]\<rparr>"

text \<open>Order 9 of user 5: a limit buy of 12 at 100.\<close>

definition buyTwelve :: Order where
  "buyTwelve = newOrder 9 5 1 1 (Some 12) (Some 100)"

text \<open>Order 9 of user 5 as a market buy of 12.\<close>

definition marketBuyTwelve :: Order where
  "marketBuyTwelve = newOrder 9 5 2 1 (Some 12) None"

text \<open>The book of the engine's own market-buy test: order 1 sells 0.5 at 50000,
  order 2 sells 0.8 at 50500.\<close>

definition testAsks :: OrderBook where
  "testAsks =
     \<lparr>OrderBook.Symbol = ''BTC/USDT'',
      Bids = Map.empty,
      Asks = [50000 \<mapsto> \<lparr>PriceLevel.Price = 50000,
                       Orders = [newOrder 1 1 1 2 (Some (1/2)) (Some 50000)], Total = 1/2\<rparr>,
              50500 \<mapsto> \<lparr>PriceLevel.Price = 50500,
                       Orders = [newOrder 2 1 1 2 (Some (4/5)) (Some 50500)], Total = 4/5\<rparr>],
      BidPrices = [],
      AskPrices = [50000, 50500]\<rparr>"

text \<open>The market buy of that test: order 3 of user 2, amount 1.\<close>

definition marketBuyOne :: Order where
  "marketBuyOne = newOrder 3 2 2 1 (Some 1) None"

text \<open>A book with one ask: order 2 sells 10 at 100.\<close>

definition tenAsk :: OrderBook where
  "tenAsk =
     \<lparr>OrderBook.Symbol = ''BTC/USDT'',
      Bids = Map.empty,
      Asks = [100 \<mapsto> \<lparr>PriceLevel.Price = 100,
                       Orders = [newOrder 2 2 1 2 (Some 10) (Some 100)], Total = 10\<rparr>],
      BidPrices = [],
      AskPrices = [100]\<rparr>"

text \<open>A book with one bid: order 7 of user 1, a pending limit buy of 10 at 100.\<close>

definition bidSeven :: OrderBook where
  "bidSeven =
     \<lparr>OrderBook.Symbol = ''BTC/USDT'',
      Bids = [100 \<mapsto> \<lparr>PriceLevel.Price = 100,
                       Orders = [newOrder 7 1 1 1 (Some 10) (Some 100)], Total = 10\<rparr>],
      Asks = Map.empty,
      BidPrices = [100],
      AskPrices = []\<rparr>"

text \<open>The service context around that book: user 1 has 1000 USDT frozen for order 7
  and \<open>spare\<close> USDT available; user 2 has 4 BTC frozen for order 8 (a limit sell of 4 at
  100 that is about to be matched) and 6 BTC available.\<close>

definition restingCtx :: "decimal \<Rightarrow> ServiceContext" where
  "restingCtx spare =
     \<lparr>BalanceModel =
        [(1, ''USDT'') \<mapsto> \<lparr>Balance.UserID = 1, Currency = ''USDT'',
                              Available = Some spare, Frozen = Some 1000\<rparr>,
         (2, ''BTC'') \<mapsto> \<lparr>Balance.UserID = 2, Currency = ''BTC'',
                             Available = Some 6, Frozen = Some 4\<rparr>],
      OrderModel = [7 \<mapsto> newOrder 7 1 1 1 (Some 10) (Some 100),
                    8 \<mapsto> newOrder 8 2 1 2 (Some 4) (Some 100)],
      TradeModel = [],
      TradingPairModel = [''BTC/USDT'' \<mapsto> btcUsdt],
      MatchingEngine = engineOf bidSeven\<rparr>"


section \<open>The matching loop on a well-formed book\<close>

lemma matchStep_buy_fill:
  assumes "Order.Side order = 1" "AskPrices ob = p # ps" "Asks ob p = Some lv" "Orders lv = m # ms"
    "PriceLevel.Price lv = p" "decOf (Order.Price m) = p" "Order.Side m \<noteq> 1"
    "case guard of Some g \<Rightarrow> \<not> g < p | None \<Rightarrow> True"
    "x = min r (decOf (Order.Amount m) - decOf (FilledAmount m))"
    "decOf (Order.Amount m) \<le> decOf (FilledAmount m) + x"
    "m' = m\<lparr>FilledAmount := Some (decOf (FilledAmount m) + x), Order.Status := 3\<rparr>"
  shows "matchStep order guard r ob res = Next (r - x,
      (if ms = [] then ob\<lparr>Asks := (Asks ob)(p := None), AskPrices := ps\<rparr>
       else ob\<lparr>Asks := (Asks ob)(p \<mapsto> lv\<lparr>Orders := ms, Total := Total lv - decOf (Order.Amount m)\<rparr>)\<rparr>),
      res\<lparr>Trades := Trades res @ [createTrade order m p x], FilledOrders := FilledOrders res @ [m']\<rparr>)"
  using assms
  by (cases guard)
     (simp_all add: matchStep_def GetBestAsk_def matchOrders_def updateMatchedOrder_def storeFront_def
      OrderBook_RemoveOrder_def PriceLevel_RemoveOrder_def IsEmpty_def removeAskPrice_def Let_def)

lemma matchStep_buy_part:
  assumes "Order.Side order = 1" "AskPrices ob = p # ps" "Asks ob p = Some lv" "Orders lv = m # ms"
    "PriceLevel.Price lv = p" "decOf (Order.Price m) = p" "Order.Side m \<noteq> 1"
    "case guard of Some g \<Rightarrow> \<not> g < p | None \<Rightarrow> True"
    "x = min r (decOf (Order.Amount m) - decOf (FilledAmount m))"
    "decOf (FilledAmount m) + x < decOf (Order.Amount m)"
    "m' = m\<lparr>FilledAmount := Some (decOf (FilledAmount m) + x), Order.Status := 2,
             Order.Amount := Some (decOf (Order.Amount m) - (decOf (FilledAmount m) + x))\<rparr>"
  shows "matchStep order guard r ob res = Next (r - x,
      ob\<lparr>Asks := (Asks ob)(p \<mapsto> lv\<lparr>Total := Total lv - decOf (Order.Amount m) + (decOf (Order.Amount m) - (decOf (FilledAmount m) + x)),
            Orders := m' # ms\<rparr>)\<rparr>,
      res\<lparr>Trades := Trades res @ [createTrade order m p x], UpdatedOrders := UpdatedOrders res @ [m']\<rparr>)"
  using assms
  by (cases guard)
     (simp_all add: matchStep_def GetBestAsk_def matchOrders_def updateMatchedOrder_def storeFront_def
      OrderBook_UpdateOrderAmount_def PriceLevel_UpdateOrderAmount_def Let_def)

lemma matchStep_sell_fill:
  assumes "Order.Side order \<noteq> 1" "BidPrices ob = p # ps" "Bids ob p = Some lv" "Orders lv = m # ms"
    "PriceLevel.Price lv = p" "decOf (Order.Price m) = p" "Order.Side m = 1"
    "case guard of Some g \<Rightarrow> \<not> p < g | None \<Rightarrow> True"
    "x = min r (decOf (Order.Amount m) - decOf (FilledAmount m))"
    "decOf (Order.Amount m) \<le> decOf (FilledAmount m) + x"
    "m' = m\<lparr>FilledAmount := Some (decOf (FilledAmount m) + x), Order.Status := 3\<rparr>"
  shows "matchStep order guard r ob res = Next (r - x,
      (if ms = [] then ob\<lparr>Bids := (Bids ob)(p := None), BidPrices := ps\<rparr>
       else ob\<lparr>Bids := (Bids ob)(p \<mapsto> lv\<lparr>Orders := ms, Total := Total lv - decOf (Order.Amount m)\<rparr>)\<rparr>),
      res\<lparr>Trades := Trades res @ [createTrade m order p x], FilledOrders := FilledOrders res @ [m']\<rparr>)"
  using assms
  by (cases guard)
     (simp_all add: matchStep_def GetBestBid_def matchOrders_def updateMatchedOrder_def storeFront_def
      OrderBook_RemoveOrder_def PriceLevel_RemoveOrder_def IsEmpty_def removeBidPrice_def Let_def)

lemma matchStep_sell_part:
  assumes "Order.Side order \<noteq> 1" "BidPrices ob = p # ps" "Bids ob p = Some lv" "Orders lv = m # ms"
    "PriceLevel.Price lv = p" "decOf (Order.Price m) = p" "Order.Side m = 1"
    "case guard of Some g \<Rightarrow> \<not> p < g | None \<Rightarrow> True"
    "x = min r (decOf (Order.Amount m) - decOf (FilledAmount m))"
    "decOf (FilledAmount m) + x < decOf (Order.Amount m)"
    "m' = m\<lparr>FilledAmount := Some (decOf (FilledAmount m) + x), Order.Status := 2,
             Order.Amount := Some (decOf (Order.Amount m) - (decOf (FilledAmount m) + x))\<rparr>"
  shows "matchStep order guard r ob res = Next (r - x,
      ob\<lparr>Bids := (Bids ob)(p \<mapsto> lv\<lparr>Total := Total lv - decOf (Order.Amount m) + (decOf (Order.Amount m) - (decOf (FilledAmount m) + x)),
            Orders := m' # ms\<rparr>)\<rparr>,
      res\<lparr>Trades := Trades res @ [createTrade m order p x], UpdatedOrders := UpdatedOrders res @ [m']\<rparr>)"
  using assms
  by (cases guard)
     (simp_all add: matchStep_def GetBestBid_def matchOrders_def updateMatchedOrder_def storeFront_def
      OrderBook_UpdateOrderAmount_def PriceLevel_UpdateOrderAmount_def Let_def)

lemma matchStep_buy_break:
  assumes "Order.Side order = 1"
    "AskPrices ob = [] \<or> (\<exists>p ps lv g. AskPrices ob = p # ps \<and> Asks ob p = Some lv \<and> guard = Some g \<and> g < PriceLevel.Price lv)"
  shows "matchStep order guard r ob res = Break"
  using assms by (auto simp: matchStep_def GetBestAsk_def)

lemma matchStep_sell_break:
  assumes "Order.Side order \<noteq> 1"
    "BidPrices ob = [] \<or> (\<exists>p ps lv g. BidPrices ob = p # ps \<and> Bids ob p = Some lv \<and> guard = Some g \<and> PriceLevel.Price lv < g)"
  shows "matchStep order guard r ob res = Break"
  using assms by (auto simp: matchStep_def GetBestBid_def)

lemma wfSide_head:
  assumes "wfSide a ob" "prices a ob = p # ps"
  obtains lv m ms where "ladder a ob p = Some lv" "PriceLevel.Price lv = p" "Orders lv = m # ms"
    "restingOK a p m" "list_all (restingOK a p) ms"
proof -
  from assms have "levelOK a p (ladder a ob p)" by (simp add: wfSide_def)
  then obtain lv where lv: "ladder a ob p = Some lv" "PriceLevel.Price lv = p" "Orders lv \<noteq> []"
      "list_all (restingOK a p) (Orders lv)"
    by (auto simp: levelOK_def split: option.splits)
  then obtain m ms where "Orders lv = m # ms" by (cases "Orders lv") auto
  with lv show ?thesis using that by auto
qed

lemma matchStep_cases [consumes 2, case_names Break Fill Part]:
  assumes wf: "wfSide a ob" and a: "a = (Order.Side order = 1)"
  obtains
    (Break) "matchStep order guard r ob res = Break"
       "prices a ob = [] \<or> (\<exists>g. guard = Some g \<and> better a g (hd (prices a ob)))"
  | (Fill) p ps lv m ms x ob' res' where
       "prices a ob = p # ps" "ladder a ob p = Some lv" "Orders lv = m # ms"
       "\<forall>g. guard = Some g \<longrightarrow> \<not> better a g p"
       "x = decOf (Order.Amount m) - decOf (FilledAmount m)" "x \<le> r"
       "matchStep order guard r ob res = Next (r - x, ob', res')"
       "prices a ob' = (if ms = [] then ps else p # ps)"
       "ladder a ob' = (ladder a ob)(p := if ms = [] then None
            else Some (lv\<lparr>Orders := ms, Total := Total lv - decOf (Order.Amount m)\<rparr>))"
       "prices (\<not> a) ob' = prices (\<not> a) ob" "ladder (\<not> a) ob' = ladder (\<not> a) ob"
       "OrderBook.Symbol ob' = OrderBook.Symbol ob"
       "res' = res\<lparr>Trades := Trades res @ [makerTrade a order m p x],
                   FilledOrders := FilledOrders res @
                     [m\<lparr>FilledAmount := Some (decOf (FilledAmount m) + x), Order.Status := 3\<rparr>]\<rparr>"
  | (Part) p ps lv m ms m' ob' res' where
       "prices a ob = p # ps" "ladder a ob p = Some lv" "Orders lv = m # ms"
       "\<forall>g. guard = Some g \<longrightarrow> \<not> better a g p"
       "decOf (FilledAmount m) + r < decOf (Order.Amount m)"
       "m' = m\<lparr>FilledAmount := Some (decOf (FilledAmount m) + r), Order.Status := 2,
                Order.Amount := Some (decOf (Order.Amount m) - (decOf (FilledAmount m) + r))\<rparr>"
       "matchStep order guard r ob res = Next (0, ob', res')"
       "prices a ob' = prices a ob"
       "ladder a ob' = (ladder a ob)(p \<mapsto> lv\<lparr>Total := Total lv - decOf (Order.Amount m)
             + (decOf (Order.Amount m) - (decOf (FilledAmount m) + r)), Orders := m' # ms\<rparr>)"
       "prices (\<not> a) ob' = prices (\<not> a) ob" "ladder (\<not> a) ob' = ladder (\<not> a) ob"
       "OrderBook.Symbol ob' = OrderBook.Symbol ob"
       "res' = res\<lparr>Trades := Trades res @ [makerTrade a order m p r],
                   UpdatedOrders := UpdatedOrders res @ [m']\<rparr>"
proof (cases "prices a ob")
  case Nil
  then have "matchStep order guard r ob res = Break"
    using a by (cases a) (auto simp: prices_def intro: matchStep_buy_break matchStep_sell_break)
  then show ?thesis using Nil Break by simp
next
  case (Cons p ps)
  from wfSide_head[OF wf Cons] obtain lv m ms where
    lv: "ladder a ob p = Some lv" "PriceLevel.Price lv = p" "Orders lv = m # ms" "restingOK a p m"
    by blast
  show ?thesis
  proof (cases "\<exists>g. guard = Some g \<and> better a g p")
    case True
    then obtain g where gg: "guard = Some g" "better a g p" by blast
    have "matchStep order guard r ob res = Break"
    proof (cases a)
      case True
      then show ?thesis
        using a Cons lv gg
        by (intro matchStep_buy_break) (auto simp: prices_def ladder_def better_def)
    next
      case False
      then show ?thesis
        using a Cons lv gg
        by (intro matchStep_sell_break) (auto simp: prices_def ladder_def better_def)
    qed
    then show ?thesis using True Cons Break by simp
  next
    case False
    then have g: "\<forall>g. guard = Some g \<longrightarrow> \<not> better a g p" by blast
    define f where "f = decOf (FilledAmount m)"
    define am where "am = decOf (Order.Amount m)"
    define x where "x = min r (am - f)"
    show ?thesis
    proof (cases "am \<le> f + x")
      case fill: True
      then have x: "x = am - f" "x \<le> r" by (auto simp: x_def min_def split: if_splits)
      define ob' where "ob' = (if a then
           (if ms = [] then ob\<lparr>Asks := (Asks ob)(p := None), AskPrices := ps\<rparr>
            else ob\<lparr>Asks := (Asks ob)(p \<mapsto> lv\<lparr>Orders := ms, Total := Total lv - am\<rparr>)\<rparr>)
         else
           (if ms = [] then ob\<lparr>Bids := (Bids ob)(p := None), BidPrices := ps\<rparr>
            else ob\<lparr>Bids := (Bids ob)(p \<mapsto> lv\<lparr>Orders := ms, Total := Total lv - am\<rparr>)\<rparr>))"
      define res' where "res' = res\<lparr>Trades := Trades res @ [makerTrade a order m p x],
                   FilledOrders := FilledOrders res @ [m\<lparr>FilledAmount := Some (f + x), Order.Status := 3\<rparr>]\<rparr>"
      have step: "matchStep order guard r ob res = Next (r - x, ob', res')"
      proof (cases a)
        case True
        have "case guard of Some g \<Rightarrow> \<not> g < p | None \<Rightarrow> True"
          using g True by (auto simp: better_def split: option.splits)
        then show ?thesis
          using True a Cons lv fill
          unfolding ob'_def res'_def makerTrade_def x_def am_def f_def
          by (simp add: prices_def ladder_def restingOK_def matchStep_buy_fill[where ps=ps and ms=ms])
      next
        case False
        have "case guard of Some g \<Rightarrow> \<not> p < g | None \<Rightarrow> True"
          using g False by (auto simp: better_def split: option.splits)
        then show ?thesis
          using False a Cons lv fill
          unfolding ob'_def res'_def makerTrade_def x_def am_def f_def
          by (simp add: prices_def ladder_def restingOK_def matchStep_sell_fill[where ps=ps and ms=ms])
      qed
      show ?thesis
        apply (rule Fill[of p ps lv m ms x ob' res'])
        using Cons lv g x step
        by (auto simp: ob'_def res'_def prices_def ladder_def am_def f_def)
    next
      case part: False
      then have x: "x = r" "f + r < am" by (auto simp: x_def min_def split: if_splits)
      define m' where "m' = m\<lparr>FilledAmount := Some (f + r), Order.Status := 2, Order.Amount := Some (am - (f + r))\<rparr>"
      define lv' where "lv' = lv\<lparr>Total := Total lv - am + (am - (f + r)), Orders := m' # ms\<rparr>"
      define ob' where "ob' = (if a then ob\<lparr>Asks := (Asks ob)(p \<mapsto> lv')\<rparr> else ob\<lparr>Bids := (Bids ob)(p \<mapsto> lv')\<rparr>)"
      define res' where "res' = res\<lparr>Trades := Trades res @ [makerTrade a order m p r],
                   UpdatedOrders := UpdatedOrders res @ [m']\<rparr>"
      have step: "matchStep order guard r ob res = Next (0, ob', res')"
      proof (cases a)
        case True
        have "case guard of Some g \<Rightarrow> \<not> g < p | None \<Rightarrow> True"
          using g True by (auto simp: better_def split: option.splits)
        then show ?thesis
          using True a Cons lv part x
          unfolding ob'_def res'_def lv'_def m'_def makerTrade_def x_def am_def f_def
          by (simp add: prices_def ladder_def restingOK_def matchStep_buy_part[where ps=ps and ms=ms])
      next
        case False
        have "case guard of Some g \<Rightarrow> \<not> p < g | None \<Rightarrow> True"
          using g False by (auto simp: better_def split: option.splits)
        then show ?thesis
          using False a Cons lv part x
          unfolding ob'_def res'_def lv'_def m'_def makerTrade_def x_def am_def f_def
          by (simp add: prices_def ladder_def restingOK_def matchStep_sell_part[where ps=ps and ms=ms])
      qed
      show ?thesis
        apply (rule Part[of p ps lv m ms m' ob' res'])
        using Cons lv g x step
        by (auto simp: ob'_def res'_def lv'_def m'_def prices_def ladder_def am_def f_def)
    qed
  qed
qed

lemma better_trans: "better a p q \<Longrightarrow> better a q r \<Longrightarrow> better a p r"
  by (auto simp: better_def split: if_splits)

lemma better_irrefl: "\<not> better a p p"
  by (simp add: better_def)

lemma sorted_better_distinct: "sorted_wrt (better a) xs \<Longrightarrow> distinct xs"
  by (induction xs) (auto simp: better_irrefl)

lemma wfSide_cong:
  "prices a ob' = prices a ob \<Longrightarrow> ladder a ob' = ladder a ob \<Longrightarrow> wfSide a ob' = wfSide a ob"
  by (simp add: wfSide_def)

lemma wfSide_pop:
  assumes wf: "wfSide a ob" and ps: "prices a ob = p # ps" and lv: "ladder a ob p = Some lv"
    and os: "Orders lv = m # ms"
    and ps': "prices a ob' = (if ms = [] then ps else p # ps)"
    and l': "ladder a ob' = (ladder a ob)(p := if ms = [] then None
            else Some (lv\<lparr>Orders := ms, Total := t\<rparr>))"
  shows "wfSide a ob'"
proof -
  from wf ps have srt: "sorted_wrt (better a) (p # ps)" and dm: "dom (ladder a ob) = set (p # ps)"
    and all: "list_all (\<lambda>q. levelOK a q (ladder a ob q)) (p # ps)"
    by (simp_all add: wfSide_def)
  from srt have pn: "p \<notin> set ps" using sorted_better_distinct[OF srt] by simp
  from all lv os have lvok: "PriceLevel.Price lv = p" "list_all (restingOK a p) ms"
    by (simp_all add: levelOK_def)
  have rest: "list_all (\<lambda>q. levelOK a q (ladder a ob' q)) ps"
    using all pn unfolding l' list_all_iff by auto
  show ?thesis
  proof (cases "ms = []")
    case True
    then show ?thesis
      using srt dm pn rest unfolding wfSide_def ps' l' by auto
  next
    case False
    then show ?thesis
      using srt dm pn rest lvok unfolding wfSide_def ps' l' by (auto simp: levelOK_def)
  qed
qed

lemma wfSide_front:
  assumes wf: "wfSide a ob" and ps: "prices a ob = p # ps" and lv: "ladder a ob p = Some lv"
    and os: "Orders lv = m # ms" and m': "restingOK a p m'"
    and ps': "prices a ob' = prices a ob"
    and l': "ladder a ob' = (ladder a ob)(p \<mapsto> lv\<lparr>Total := t, Orders := m' # ms\<rparr>)"
  shows "wfSide a ob'"
proof -
  from wf ps have srt: "sorted_wrt (better a) (p # ps)" and dm: "dom (ladder a ob) = set (p # ps)"
    and all: "list_all (\<lambda>q. levelOK a q (ladder a ob q)) (p # ps)"
    by (simp_all add: wfSide_def)
  from srt have pn: "p \<notin> set ps" using sorted_better_distinct[OF srt] by simp
  from all lv os have lvok: "PriceLevel.Price lv = p" "list_all (restingOK a p) ms"
    by (simp_all add: levelOK_def)
  have rest: "list_all (\<lambda>q. levelOK a q (ladder a ob' q)) ps"
    using all pn unfolding l' list_all_iff by auto
  show ?thesis
    using srt dm pn rest lvok m' unfolding wfSide_def ps' ps l' by (auto simp: levelOK_def)
qed

lemma levelOrders_simps [simp]: "levelOrders None = []" "levelOrders (Some lv) = Orders lv"
  by (simp_all add: levelOrders_def)

lemma queue_cong:
  "prices a ob' = prices a ob \<Longrightarrow> ladder a ob' = ladder a ob \<Longrightarrow> queue a ob' = queue a ob"
  by (simp add: queue_def)

lemma queue_tail_eq:
  assumes "p \<notin> set ps"
  shows "map (\<lambda>q. levelOrders ((l(p := v)) q)) ps = map (\<lambda>q. levelOrders (l q)) ps"
  using assms by (induction ps) auto

lemma queue_pop:
  assumes wf: "wfSide a ob" and ps: "prices a ob = p # ps" and lv: "ladder a ob p = Some lv"
    and os: "Orders lv = m # ms"
    and ps': "prices a ob' = (if ms = [] then ps else p # ps)"
    and l': "ladder a ob' = (ladder a ob)(p := if ms = [] then None
            else Some (lv\<lparr>Orders := ms, Total := t\<rparr>))"
  shows "queue a ob = m # queue a ob'"
proof -
  from wf ps have srt: "sorted_wrt (better a) (p # ps)" by (simp add: wfSide_def)
  from srt have pn: "p \<notin> set ps" using sorted_better_distinct[OF srt] by simp
  show ?thesis
    unfolding queue_def ps ps' l' using lv os
    by (simp add: queue_tail_eq[OF pn] fun_upd_same del: fun_upd_apply)
qed

lemma queue_front:
  assumes wf: "wfSide a ob" and ps: "prices a ob = p # ps" and lv: "ladder a ob p = Some lv"
    and os: "Orders lv = m # ms"
    and ps': "prices a ob' = prices a ob"
    and l': "ladder a ob' = (ladder a ob)(p \<mapsto> lv\<lparr>Total := t, Orders := m' # ms\<rparr>)"
  shows "\<exists>qs. queue a ob = m # qs \<and> queue a ob' = m' # qs"
proof -
  from wf ps have srt: "sorted_wrt (better a) (p # ps)" by (simp add: wfSide_def)
  from srt have pn: "p \<notin> set ps" using sorted_better_distinct[OF srt] by simp
  show ?thesis
    unfolding queue_def ps ps' l' using lv os
    by (simp add: queue_tail_eq[OF pn] fun_upd_same del: fun_upd_apply)
qed

lemma wfBook_sides: "wfBook ob = (wfSide a ob \<and> wfSide (\<not> a) ob)"
  by (cases a) (auto simp: wfBook_def)

lemma matchLoop_rule:
  assumes wf: "wfBook ob" and I0: "I r ob res"
    and pres: "\<And>r ob res r' ob' res'.
        \<lbrakk>wfBook ob; I r ob res; 0 < r; matchStep order guard r ob res = Next (r', ob', res')\<rbrakk>
        \<Longrightarrow> I r' ob' res'"
  shows "\<exists>r' ob' res'. matchLoop order guard r ob res = Some (Inr (r', ob', res')) \<and>
           wfBook ob' \<and> I r' ob' res' \<and>
           (r' \<le> 0 \<or> matchStep order guard r' ob' res' = Break)"
  using wf I0
proof (induction "length (queue (Order.Side order = 1) ob)" arbitrary: r ob res rule: less_induct)
  case less
  define a where "a = (Order.Side order = 1)"
  have wfa: "wfSide a ob" and wfn: "wfSide (\<not> a) ob"
    using less.prems(1) wfBook_sides[of ob a] by auto
  show ?case
  proof (cases "0 < r")
    case False
    then have "matchLoop order guard r ob res = Some (Inr (r, ob, res))"
      by (subst matchLoop.simps) simp
    with False less.prems show ?thesis by auto
  next
    case rpos: True
    show ?thesis
    proof (rule matchStep_cases[OF wfa a_def, where guard=guard and r=r and res=res], goal_cases)
      case Break: 1
      then have "matchLoop order guard r ob res = Some (Inr (r, ob, res))"
        using rpos by (subst matchLoop.simps) simp
      with Break less.prems show ?thesis by auto
    next
      case Fill: (2 p ps lv m ms x ob' res')
      have wf': "wfBook ob'"
        using wfSide_pop[OF wfa Fill(1,2,3,8,9)] wfn wfSide_cong[OF Fill(10,11)]
        by (simp add: wfBook_sides[of ob' a])
      have I': "I (r - x) ob' res'"
        using pres[OF less.prems(1,2) rpos Fill(7)] .
      have len: "length (queue (Order.Side order = 1) ob') < length (queue (Order.Side order = 1) ob)"
        using queue_pop[OF wfa Fill(1,2,3,8,9)] by (simp add: a_def)
      have unf: "matchLoop order guard r ob res = matchLoop order guard (r - x) ob' res'"
        using rpos Fill(7) by (subst matchLoop.simps) simp
      show ?thesis unfolding unf by (rule less.hyps[OF len wf' I'])
    next
      case Part: (3 p ps lv m ms m' ob' res')
      obtain lv0 m0 ms0 where h: "ladder a ob p = Some lv0" "Orders lv0 = m0 # ms0" "restingOK a p m0"
        using wfSide_head[OF wfa Part(1)] by metis
      have mok: "restingOK a p m" using h Part(2,3) by simp
      have m'ok: "restingOK a p m'"
        using mok rpos unfolding Part(6) by (simp add: restingOK_def decOf_def)
      have wf': "wfBook ob'"
        using wfSide_front[OF wfa Part(1,2,3) m'ok Part(8,9)] wfn wfSide_cong[OF Part(10,11)]
        by (simp add: wfBook_sides[of ob' a])
      have I': "I 0 ob' res'"
        using pres[OF less.prems(1,2) rpos Part(7)] .
      have "matchLoop order guard 0 ob' res' = Some (Inr (0, ob', res'))"
        by (subst matchLoop.simps) simp
      then have "matchLoop order guard r ob res = Some (Inr (0, ob', res'))"
        using rpos Part(7) by (subst matchLoop.simps) simp
      with wf' I' show ?thesis by auto
    qed
  qed
qed

lemma AddOrder_other:
  assumes "a = (Order.Side order \<noteq> 1)"
  shows "ladder (\<not> a) (OrderBook_AddOrder ob order) = ladder (\<not> a) ob"
    and "prices (\<not> a) (OrderBook_AddOrder ob order) = prices (\<not> a) ob"
    and "OrderBook.Symbol (OrderBook_AddOrder ob order) = OrderBook.Symbol ob"
  using assms
  by (auto simp: OrderBook_AddOrder_def ladder_def prices_def insertBidPrice_def insertAskPrice_def
      Let_def split: option.splits)

lemma AddOrder_same:
  assumes "a = (Order.Side order \<noteq> 1)" and "p = decOf (Order.Price order)"
  shows "ladder a (OrderBook_AddOrder ob order) =
           (ladder a ob)(p \<mapsto> PriceLevel_AddOrder
              (case ladder a ob p of None \<Rightarrow> NewPriceLevel p | Some lv \<Rightarrow> lv) order)"
    and "prices a (OrderBook_AddOrder ob order) =
           (case ladder a ob p of None \<Rightarrow> insertPrice a (prices a ob) p | Some _ \<Rightarrow> prices a ob)"
  using assms
  by (auto simp: OrderBook_AddOrder_def ladder_def prices_def insertBidPrice_def insertAskPrice_def
      insertPrice_def Let_def split: option.splits)

lemma sorted_better_iff:
  "sorted_wrt (better a) xs = (if a then sorted xs \<and> distinct xs else sorted (rev xs) \<and> distinct xs)"
proof (cases a)
  case True
  then have "better a = (<)" by (auto simp: better_def fun_eq_iff)
  then show ?thesis using True by (simp add: strict_sorted_iff)
next
  case False
  then have "better a = (\<lambda>x y. y < x)" by (auto simp: better_def fun_eq_iff)
  then have "sorted_wrt (better a) xs = sorted_wrt (<) (rev xs)" by (simp add: sorted_wrt_rev)
  then show ?thesis using False by (simp add: strict_sorted_iff)
qed

lemma insertPrice_sorted:
  assumes "sorted_wrt (better a) xs" "p \<notin> set xs"
  shows "sorted_wrt (better a) (insertPrice a xs p)" and "set (insertPrice a xs p) = insert p (set xs)"
  using assms by (auto simp: sorted_better_iff insertPrice_def split: if_splits)

lemma wfSide_add:
  assumes wf: "wfSide a ob" and a: "a = (Order.Side order \<noteq> 1)" and f: "0 \<le> decOf (FilledAmount order)"
  shows "wfSide a (OrderBook_AddOrder ob order)"
proof -
  define p where "p = decOf (Order.Price order)"
  note same = AddOrder_same[OF a p_def, of ob]
  have ok: "restingOK a p order" using a f by (simp add: restingOK_def p_def)
  from wf have srt: "sorted_wrt (better a) (prices a ob)" and dm: "dom (ladder a ob) = set (prices a ob)"
    and all: "list_all (\<lambda>q. levelOK a q (ladder a ob q)) (prices a ob)"
    by (simp_all add: wfSide_def)
  show ?thesis
  proof (cases "ladder a ob p")
    case None
    then have pn: "p \<notin> set (prices a ob)" using dm domIff by blast
    have "list_all (\<lambda>q. levelOK a q (ladder a (OrderBook_AddOrder ob order) q)) (insertPrice a (prices a ob) p)"
      unfolding list_all_iff insertPrice_sorted(2)[OF srt pn] same(1)
      using all None ok
      by (auto simp: list_all_iff levelOK_def PriceLevel_AddOrder_def NewPriceLevel_def)
    then show ?thesis
      unfolding wfSide_def same using None insertPrice_sorted[OF srt pn] dm
      by auto
  next
    case (Some lv)
    then have pin: "p \<in> set (prices a ob)" using dm domIff by blast
    then have "levelOK a p (Some lv)" using all Some by (auto simp: list_all_iff)
    then have "list_all (\<lambda>q. levelOK a q (ladder a (OrderBook_AddOrder ob order) q)) (prices a ob)"
      unfolding list_all_iff same(1)
      using all Some ok
      by (auto simp: list_all_iff levelOK_def PriceLevel_AddOrder_def)
    then show ?thesis
      unfolding wfSide_def same using Some srt dm pin
      by auto
  qed
qed

lemma matchStep_NextE [consumes 3, case_names Fill Part]:
  assumes wf: "wfSide a ob" and a: "a = (Order.Side order = 1)"
    and nx: "matchStep order guard r ob res = Next (r', ob', res')"
  obtains
    (Fill) p ps lv m ms x where
       "prices a ob = p # ps" "ladder a ob p = Some lv" "Orders lv = m # ms"
       "\<forall>g. guard = Some g \<longrightarrow> \<not> better a g p"
       "x = decOf (Order.Amount m) - decOf (FilledAmount m)" "x \<le> r" "r' = r - x"
       "prices a ob' = (if ms = [] then ps else p # ps)"
       "ladder a ob' = (ladder a ob)(p := if ms = [] then None
            else Some (lv\<lparr>Orders := ms, Total := Total lv - decOf (Order.Amount m)\<rparr>))"
       "prices (\<not> a) ob' = prices (\<not> a) ob" "ladder (\<not> a) ob' = ladder (\<not> a) ob"
       "OrderBook.Symbol ob' = OrderBook.Symbol ob"
       "res' = res\<lparr>Trades := Trades res @ [makerTrade a order m p x],
                   FilledOrders := FilledOrders res @
                     [m\<lparr>FilledAmount := Some (decOf (FilledAmount m) + x), Order.Status := 3\<rparr>]\<rparr>"
  | (Part) p ps lv m ms m' where
       "prices a ob = p # ps" "ladder a ob p = Some lv" "Orders lv = m # ms"
       "\<forall>g. guard = Some g \<longrightarrow> \<not> better a g p"
       "decOf (FilledAmount m) + r < decOf (Order.Amount m)" "r' = 0"
       "m' = m\<lparr>FilledAmount := Some (decOf (FilledAmount m) + r), Order.Status := 2,
                Order.Amount := Some (decOf (Order.Amount m) - (decOf (FilledAmount m) + r))\<rparr>"
       "prices a ob' = prices a ob"
       "ladder a ob' = (ladder a ob)(p \<mapsto> lv\<lparr>Total := Total lv - decOf (Order.Amount m)
             + (decOf (Order.Amount m) - (decOf (FilledAmount m) + r)), Orders := m' # ms\<rparr>)"
       "prices (\<not> a) ob' = prices (\<not> a) ob" "ladder (\<not> a) ob' = ladder (\<not> a) ob"
       "OrderBook.Symbol ob' = OrderBook.Symbol ob"
       "res' = res\<lparr>Trades := Trades res @ [makerTrade a order m p r],
                   UpdatedOrders := UpdatedOrders res @ [m']\<rparr>"
proof (rule matchStep_cases[OF wf a, where guard=guard and r=r and res=res], goal_cases)
  case 1
  with nx show ?case by simp
next
  case (2 p ps lv m ms x ob2 res2)
  from 2 nx have e: "r' = r - x" "ob' = ob2" "res' = res2" by simp_all
  show ?case
    by (rule Fill[of p ps lv m ms x]) (use 2 e in simp_all)
next
  case (3 p ps lv m ms m' ob2 res2)
  from 3 nx have e: "r' = 0" "ob' = ob2" "res' = res2" by simp_all
  show ?case
    by (rule Part[of p ps lv m ms m']) (use 3 e in simp_all)
qed

lemma matchStep_BreakD:
  assumes wf: "wfSide a ob" and a: "a = (Order.Side order = 1)"
    and br: "matchStep order guard r ob res = Break"
  shows "prices a ob = [] \<or> (\<exists>g. guard = Some g \<and> better a g (hd (prices a ob)))"
  by (rule matchStep_cases[OF wf a, where guard=guard and r=r and res=res]) (use br in simp_all)

lemma uncrossed_sides:
  "uncrossed ob = (\<forall>q \<in> set (prices a ob). \<forall>q' \<in> set (prices (\<not> a) ob). better a q' q)"
  by (cases a) (auto simp: uncrossed_def prices_def better_def)

lemma bookOf_put:
  "bookOf (me\<lparr>orderBooks := (orderBooks me)(s \<mapsto> ob)\<rparr>) s = ob"
  by (simp add: bookOf_def GetOrderBook_def)

lemma GetOrderBook_snd_put:
  "(snd (GetOrderBook me s))\<lparr>orderBooks := (orderBooks (snd (GetOrderBook me s)))(s \<mapsto> ob)\<rparr>
     = me\<lparr>orderBooks := (orderBooks me)(s \<mapsto> ob)\<rparr>"
  by (simp add: GetOrderBook_def split: option.splits)

lemma bookOf_snd_GetOrderBook: "bookOf (snd (GetOrderBook me s)) s' = bookOf me s'"
  by (auto simp: bookOf_def GetOrderBook_def split: option.splits)

lemma ProcessOrder_limit:
  assumes "Order.Type order = 1"
    and "matchLoop order (guardOf order) (decOf (Order.Amount order)) (bookOf me (Order.Symbol order))
           emptyResult = Some (Inr (r, ob, res))"
    and "updateCurrentOrder order r ob res = (o1, ob1, res1)"
  shows "ProcessOrder me (Some order) =
           Some (Inr (Processed res1 o1 (me\<lparr>orderBooks := (orderBooks me)(Order.Symbol order \<mapsto> ob1)\<rparr>)))"
  using assms GetOrderBook_snd_put[of me "Order.Symbol order" ob1]
  by (simp add: ProcessOrder_def processLimitOrder_def guardOf_def bookOf_def emptyResult_def
      split_beta Let_def)

lemma ProcessOrder_market:
  assumes "Order.Type order = 2"
    and "matchLoop order (guardOf order) (decOf (Order.Amount order)) (bookOf me (Order.Symbol order))
           emptyResult = Some (Inr (r, ob, res))"
  shows "ProcessOrder me (Some order) =
           Some (Inr (Processed
             (if r < decOf (Order.Amount order)
              then (if r = 0
                    then res\<lparr>FilledOrders := FilledOrders res @
                               [order\<lparr>FilledAmount := Some (decOf (FilledAmount order) + (decOf (Order.Amount order) - r)), Order.Status := 3\<rparr>],
                             UpdatedOrders := UpdatedOrders res @
                               [order\<lparr>FilledAmount := Some (decOf (FilledAmount order) + (decOf (Order.Amount order) - r)), Order.Status := 3\<rparr>]\<rparr>
                    else res\<lparr>UpdatedOrders := UpdatedOrders res @
                               [order\<lparr>FilledAmount := Some (decOf (FilledAmount order) + (decOf (Order.Amount order) - r)), Order.Status := 4\<rparr>]\<rparr>)
              else res)
             (if r < decOf (Order.Amount order)
              then order\<lparr>FilledAmount := Some (decOf (FilledAmount order) + (decOf (Order.Amount order) - r)),
                         Order.Status := (if r = 0 then 3 else 4)\<rparr>
              else order)
             (me\<lparr>orderBooks := (orderBooks me)(Order.Symbol order \<mapsto> ob)\<rparr>)))"
  using assms GetOrderBook_snd_put[of me "Order.Symbol order" ob]
  by (simp add: ProcessOrder_def processMarketOrder_def guardOf_def bookOf_def emptyResult_def
      split_beta Let_def)

lemma ProcessOrder_unsupported:
  assumes "Order.Type order \<noteq> 1" "Order.Type order \<noteq> 2"
  shows "ProcessOrder me (Some order) =
           Some (Inr (Failed ''unsupported order type'' (snd (GetOrderBook me (Order.Symbol order)))))"
  using assms by (simp add: ProcessOrder_def split_beta Let_def)

lemma wfSide_best_all:
  assumes "wfSide a ob" "prices a ob = [] \<or> better a g (hd (prices a ob))"
  shows "\<forall>q \<in> set (prices a ob). better a g q"
proof (cases "prices a ob")
  case Nil
  then show ?thesis by simp
next
  case (Cons p ps)
  with assms have "better a g p" "sorted_wrt (better a) (p # ps)" by (simp_all add: wfSide_def)
  then show ?thesis using Cons by (auto intro: better_trans)
qed

lemma loopFrame_step:
  assumes "wfBook ob" "loopFrame a ob0 r ob" "0 < r" "a = (Order.Side order = 1)"
    "matchStep order guard r ob res = Next (r', ob', res')"
  shows "loopFrame a ob0 r' ob'"
proof -
  have wfa: "wfSide a ob" using assms(1) wfBook_sides[of ob a] by simp
  from wfa assms(4,5) show ?thesis
  proof (cases rule: matchStep_NextE)
    case (Fill p ps lv m ms x)
    then show ?thesis using assms(2,3) by (auto simp: loopFrame_def split: if_splits)
  next
    case (Part p ps lv m ms m')
    then show ?thesis using assms(2,3) by (auto simp: loopFrame_def)
  qed
qed

lemma matchLoop_frame:
  assumes "wfBook ob0" "0 \<le> r0" "a = (Order.Side order = 1)"
  shows "\<exists>r ob res. matchLoop order guard r0 ob0 res0 = Some (Inr (r, ob, res)) \<and>
           wfBook ob \<and> loopFrame a ob0 r ob \<and>
           (r \<le> 0 \<or> matchStep order guard r ob res = Break)"
proof -
  have "\<exists>r ob res. matchLoop order guard r0 ob0 res0 = Some (Inr (r, ob, res)) \<and>
           wfBook ob \<and> (\<lambda>r ob res. loopFrame a ob0 r ob) r ob res \<and>
           (r \<le> 0 \<or> matchStep order guard r ob res = Break)"
  proof (rule matchLoop_rule[OF assms(1)])
    show "loopFrame a ob0 r0 ob0" using assms(2) by (simp add: loopFrame_def)
  next
    fix r ob res r' ob' res'
    assume "wfBook ob" "loopFrame a ob0 r ob" "0 < r" "matchStep order guard r ob res = Next (r', ob', res')"
    then show "loopFrame a ob0 r' ob'" using loopFrame_step assms(3) by blast
  qed
  then show ?thesis by simp
qed

lemma bookInv_after_loop:
  assumes "bookInv ob0" "wfBook ob" "loopFrame a ob0 r ob"
  shows "bookInv ob"
  using assms uncrossed_sides[of ob0 a] uncrossed_sides[of ob a]
  by (auto simp: bookInv_def loopFrame_def)

lemma bookInv_add:
  assumes inv: "bookInv ob" and f: "0 \<le> decOf (FilledAmount order)"
    and a: "a = (Order.Side order = 1)"
    and g: "\<forall>q \<in> set (prices a ob). better a (decOf (Order.Price order)) q"
  shows "bookInv (OrderBook_AddOrder ob order)"
proof -
  have na: "(\<not> a) = (Order.Side order \<noteq> 1)" using a by simp
  have wfa: "wfSide a ob" and wfn: "wfSide (\<not> a) ob"
    using inv wfBook_sides[of ob a] by (auto simp: bookInv_def)
  have w1: "wfSide (\<not> a) (OrderBook_AddOrder ob order)"
    by (rule wfSide_add[OF wfn na f])
  have "ladder a (OrderBook_AddOrder ob order) = ladder a ob" "prices a (OrderBook_AddOrder ob order) = prices a ob"
    using AddOrder_other[OF na, of ob] by simp_all
  then have w2: "wfSide a (OrderBook_AddOrder ob order)" and pa: "prices a (OrderBook_AddOrder ob order) = prices a ob"
    using wfa wfSide_cong[of a "OrderBook_AddOrder ob order" ob] by simp_all
  have pn: "set (prices (\<not> a) (OrderBook_AddOrder ob order)) \<subseteq> insert (decOf (Order.Price order)) (set (prices (\<not> a) ob))"
  proof (cases "ladder (\<not> a) ob (decOf (Order.Price order))")
    case None
    have "decOf (Order.Price order) \<notin> set (prices (\<not> a) ob)"
      using None wfn domIff unfolding wfSide_def by blast
    then show ?thesis
      using AddOrder_same(2)[OF na refl, of ob] None wfn insertPrice_sorted(2)[of "\<not> a" "prices (\<not> a) ob"]
      by (simp add: wfSide_def)
  next
    case (Some lv)
    then show ?thesis using AddOrder_same(2)[OF na refl, of ob] by auto
  qed
  have "uncrossed (OrderBook_AddOrder ob order)"
    unfolding uncrossed_sides[of _ a] pa
    using inv g pn uncrossed_sides[of ob a] by (auto simp: bookInv_def)
  with w1 w2 show ?thesis using wfBook_sides[of "OrderBook_AddOrder ob order" a] by (simp add: bookInv_def)
qed

lemma bookInv_best:
  assumes "bookInv ob" "GetBestBid ob = Some (pb, Some lb)" "GetBestAsk ob = Some (pa, Some la)"
  shows "PriceLevel.Price lb < PriceLevel.Price la"
proof -
  from assms(2) obtain bs where b: "BidPrices ob = pb # bs" "Bids ob pb = Some lb"
    by (auto simp: GetBestBid_def split: list.splits)
  from assms(3) obtain as where a: "AskPrices ob = pa # as" "Asks ob pa = Some la"
    by (auto simp: GetBestAsk_def split: list.splits)
  from assms(1) a b have "PriceLevel.Price lb = pb" "PriceLevel.Price la = pa" "pb < pa"
    by (auto simp: bookInv_def wfBook_def wfSide_def prices_def ladder_def levelOK_def uncrossed_def)
  then show ?thesis by simp
qed

lemma makerTrade_tradeWith:
  "restingOK a p m \<Longrightarrow> tradeWith a order (makerTrade a order m p x) m"
  by (simp add: tradeWith_def makerTrade_def createTrade_def makerOrderID_def takerOrderID_def restingOK_def)

lemma makersInv_step:
  assumes wf: "wfBook ob" and inv: "makersInv a order ob0 r ob res" and rpos: "0 < r"
    and a: "a = (Order.Side order = 1)"
    and nx: "matchStep order guard r ob res = Next (r', ob', res')"
  shows "makersInv a order ob0 r' ob' res'"
proof -
  have wfa: "wfSide a ob" using wf wfBook_sides[of ob a] by simp
  from inv rpos obtain ms where ms: "list_all2 (tradeWith a order) (Trades res) ms"
      "queue a ob0 = ms @ queue a ob"
    by (auto simp: makersInv_def)
  from wfa a nx show ?thesis
  proof (cases rule: matchStep_NextE)
    case (Fill p ps lv m ms' x)
    from wfSide_head[OF wfa Fill(1)] Fill(2,3) have mok: "restingOK a p m" by (metis list.inject option.inject)
    have q: "queue a ob = m # queue a ob'"
      by (rule queue_pop[OF wfa Fill(1,2,3,8,9)])
    have "list_all2 (tradeWith a order) (Trades res') (ms @ [m])"
      using ms(1) makerTrade_tradeWith[OF mok] unfolding Fill(13)
      by (simp add: list_all2_appendI)
    moreover have "queue a ob0 = (ms @ [m]) @ queue a ob'" using ms(2) q by simp
    ultimately show ?thesis unfolding makersInv_def by (metis prefixI)
  next
    case (Part p ps lv m ms' m')
    from wfSide_head[OF wfa Part(1)] Part(2,3) have mok: "restingOK a p m" by (metis list.inject option.inject)
    from queue_front[OF wfa Part(1,2,3,8,9)] obtain qs where q: "queue a ob = m # qs" by blast
    have "list_all2 (tradeWith a order) (Trades res') (ms @ [m])"
      using ms(1) makerTrade_tradeWith[OF mok] unfolding Part(13)
      by (simp add: list_all2_appendI)
    moreover have "queue a ob0 = (ms @ [m]) @ qs" using ms(2) q by simp
    ultimately show ?thesis unfolding makersInv_def using Part(6) by (metis less_irrefl prefixI)
  qed
qed

lemma matchLoop_makers:
  assumes "wfBook ob0" "a = (Order.Side order = 1)"
  shows "\<exists>r ob res. matchLoop order guard r0 ob0 emptyResult = Some (Inr (r, ob, res)) \<and>
           wfBook ob \<and> makersInv a order ob0 r ob res"
proof -
  have "\<exists>r ob res. matchLoop order guard r0 ob0 emptyResult = Some (Inr (r, ob, res)) \<and>
           wfBook ob \<and> makersInv a order ob0 r ob res \<and>
           (r \<le> 0 \<or> matchStep order guard r ob res = Break)"
  proof (rule matchLoop_rule[OF assms(1)])
    show "makersInv a order ob0 r0 ob0 emptyResult"
      by (simp add: makersInv_def emptyResult_def)
  next
    fix r ob res r' ob' res'
    assume "wfBook ob" "makersInv a order ob0 r ob res" "0 < r"
      "matchStep order guard r ob res = Next (r', ob', res')"
    then show "makersInv a order ob0 r' ob' res'" using makersInv_step assms(2) by blast
  qed
  then show ?thesis by blast
qed

lemma ProcessOrder_trades:
  assumes "Order.Type order = 1 \<or> Order.Type order = 2"
    and "matchLoop order (guardOf order) (decOf (Order.Amount order)) (bookOf me (Order.Symbol order))
           emptyResult = Some (Inr (r, ob, res))"
  shows "\<exists>res1 o1 me1. ProcessOrder me (Some order) = Some (Inr (Processed res1 o1 me1)) \<and>
           Trades res1 = Trades res"
proof (cases "Order.Type order = 1")
  case True
  obtain o1 ob1 res1 where uc: "updateCurrentOrder order r ob res = (o1, ob1, res1)"
    by (cases "updateCurrentOrder order r ob res") auto
  then have "Trades res1 = Trades res"
    by (auto simp: updateCurrentOrder_def Let_def split: if_splits)
  then show ?thesis using ProcessOrder_limit[OF True assms(2) uc] by simp
next
  case False
  then have "Order.Type order = 2" using assms(1) by simp
  from ProcessOrder_market[OF this assms(2)] show ?thesis by simp
qed

lemma queue_member_level:
  assumes "wfSide a ob" "m \<in> set (queue a ob)"
  shows "\<exists>lv. ladder a ob (decOf (Order.Price m)) = Some lv \<and> m \<in> set (Orders lv) \<and>
           PriceLevel.Price lv = decOf (Order.Price m)"
proof -
  from assms(2) obtain p where p: "p \<in> set (prices a ob)" "m \<in> set (levelOrders (ladder a ob p))"
    by (auto simp: queue_def)
  with assms(1) have "levelOK a p (ladder a ob p)" by (auto simp: wfSide_def list_all_iff)
  with p(2) show ?thesis
    by (auto simp: levelOK_def list_all_iff restingOK_def split: option.splits)
qed

lemma list_all2_memberD: "list_all2 P xs ys \<Longrightarrow> x \<in> set xs \<Longrightarrow> \<exists>y \<in> set ys. P x y"
  by (induction rule: list_all2_induct) auto

lemma better_asym: "better a p q \<Longrightarrow> \<not> better a q p"
  by (auto simp: better_def split: if_splits)

lemma better_linear: "better a p q \<or> p = q \<or> better a q p"
  by (auto simp: better_def)

lemma filter_level:
  assumes "levelOK a q lq"
  shows "filter (\<lambda>m. P (decOf (Order.Price m))) (levelOrders lq) = (if P q then levelOrders lq else [])"
proof -
  from assms obtain lv where lv: "lq = Some lv" "list_all (restingOK a q) (Orders lv)"
    by (auto simp: levelOK_def split: option.splits)
  then have "\<forall>m \<in> set (Orders lv). decOf (Order.Price m) = q"
    by (auto simp: list_all_iff restingOK_def)
  then show ?thesis using lv(1) by (auto simp: filter_empty_conv intro: filter_True)
qed

lemma filter_queue:
  assumes "list_all (\<lambda>q. levelOK a q (l q)) ps"
  shows "filter (\<lambda>m. P (decOf (Order.Price m))) (concat (map (\<lambda>q. levelOrders (l q)) ps))
       = concat (map (\<lambda>q. levelOrders (l q)) (filter P ps))"
  using assms
proof (induction ps)
  case Nil
  then show ?case by simp
next
  case (Cons q ps)
  then have "levelOK a q (l q)" and rest: "list_all (\<lambda>q. levelOK a q (l q)) ps" by simp_all
  from filter_level[of a q "l q" P, OF this(1)] Cons.IH[OF rest] show ?case by simp
qed

lemma sorted_split3:
  assumes "sorted_wrt (better a) xs"
  shows "xs = filter (\<lambda>q. better a q p) xs @ filter (\<lambda>q. q = p) xs @ filter (better a p) xs"
  using assms
proof (induction xs)
  case Nil
  then show ?case by simp
next
  case (Cons x xs)
  then have later: "\<forall>y \<in> set xs. better a x y" and srt: "sorted_wrt (better a) xs" by simp_all
  consider "better a x p" | "x = p" | "better a p x" using better_linear by blast
  then show ?case
  proof cases
    case 1
    then have "\<not> better a p x" "x \<noteq> p" using better_asym better_irrefl by blast+
    then show ?thesis using 1 Cons.IH[OF srt] by simp
  next
    case 2
    have "filter (\<lambda>q. better a q p) xs = []" "filter (\<lambda>q. q = p) xs = []" "filter (better a p) xs = xs"
      using later 2 better_asym better_irrefl by (auto simp: filter_empty_conv intro: filter_True)
    then show ?thesis using 2 by (simp add: better_irrefl)
  next
    case 3
    then have nb: "\<not> better a x p" "x \<noteq> p" using better_asym better_irrefl by blast+
    have all: "\<forall>y \<in> set xs. better a p y" using later 3 better_trans by blast
    then have "filter (\<lambda>q. better a q p) xs = []" "filter (\<lambda>q. q = p) xs = []" "filter (better a p) xs = xs"
      using better_asym better_irrefl by (auto simp: filter_empty_conv intro: filter_True)
    then show ?thesis using 3 nb by simp
  qed
qed

lemma sorted_notworse:
  assumes "sorted_wrt (better a) xs"
  shows "filter (\<lambda>q. \<not> better a p q) xs = filter (\<lambda>q. better a q p) xs @ filter (\<lambda>q. q = p) xs"
  using assms
proof (induction xs)
  case Nil
  then show ?case by simp
next
  case (Cons x xs)
  then have later: "\<forall>y \<in> set xs. better a x y" and srt: "sorted_wrt (better a) xs" by simp_all
  consider "better a x p" | "x = p" | "better a p x" using better_linear by blast
  then show ?case
  proof cases
    case 1
    then have "\<not> better a p x" "x \<noteq> p" using better_asym better_irrefl by blast+
    then show ?thesis using 1 Cons.IH[OF srt] by simp
  next
    case 2
    have "filter (\<lambda>q. better a q p) xs = []" "filter (\<lambda>q. q = p) xs = []" "filter (\<lambda>q. \<not> better a p q) xs = []"
      using later 2 better_asym better_irrefl by (auto simp: filter_empty_conv)
    then show ?thesis using 2 by (simp add: better_irrefl)
  next
    case 3
    then have nb: "\<not> better a x p" "x \<noteq> p" using better_asym better_irrefl by blast+
    have all: "\<forall>y \<in> set xs. better a p y" using later 3 better_trans by blast
    then have "filter (\<lambda>q. better a q p) xs = []" "filter (\<lambda>q. q = p) xs = []" "filter (\<lambda>q. \<not> better a p q) xs = []"
      using better_asym better_irrefl by (auto simp: filter_empty_conv)
    then show ?thesis using 3 nb by simp
  qed
qed

lemma sorted_better_unique:
  assumes "sorted_wrt (better a) xs" "sorted_wrt (better a) ys" "set xs = set ys"
  shows "xs = ys"
proof (cases a)
  case True
  then show ?thesis using assms sorted_distinct_set_unique[of xs ys] by (simp add: sorted_better_iff)
next
  case False
  then have "rev xs = rev ys"
    using assms sorted_distinct_set_unique[of "rev xs" "rev ys"] by (simp add: sorted_better_iff)
  then show ?thesis by simp
qed

lemma insertPrice_split:
  assumes srt: "sorted_wrt (better a) xs" and pn: "p \<notin> set xs"
  shows "insertPrice a xs p = filter (\<lambda>q. better a q p) xs @ [p] @ filter (better a p) xs"
proof (rule sorted_better_unique)
  show "sorted_wrt (better a) (insertPrice a xs p)" by (rule insertPrice_sorted(1)[OF srt pn])
  show "sorted_wrt (better a) (filter (\<lambda>q. better a q p) xs @ [p] @ filter (better a p) xs)"
    using srt by (auto simp: sorted_wrt_append sorted_wrt_filter intro: better_trans)
  show "set (insertPrice a xs p) = set (filter (\<lambda>q. better a q p) xs @ [p] @ filter (better a p) xs)"
    using insertPrice_sorted(2)[OF srt pn] pn better_linear[of a _ p] by auto
qed

lemma filter_eq_single: "distinct xs \<Longrightarrow> p \<in> set xs \<Longrightarrow> filter (\<lambda>q. q = p) xs = [p]"
  by (induction xs) (auto simp: filter_empty_conv)

lemma queue_map_upd_notin:
  assumes "p \<notin> set ps"
  shows "concat (map (\<lambda>q. levelOrders ((l(p \<mapsto> v)) q)) ps) = concat (map (\<lambda>q. levelOrders (l q)) ps)"
  using assms by (induction ps) auto

text \<open>Where \<^verbatim>\<open>AddOrder\<close> puts an order in the queue of its side: behind every
  resting order whose price is not worse than its own, before every order of a worse
  price.\<close>

lemma queue_AddOrder:
  assumes wf: "wfSide a ob" and a: "a = (Order.Side order \<noteq> 1)" and p: "p = decOf (Order.Price order)"
  shows "queue a (OrderBook_AddOrder ob order) =
           filter (\<lambda>m. \<not> better a p (decOf (Order.Price m))) (queue a ob) @ [order] @
           filter (\<lambda>m. better a p (decOf (Order.Price m))) (queue a ob)"
proof -
  note same = AddOrder_same[OF a p, of ob]
  from wf have srt: "sorted_wrt (better a) (prices a ob)" and dm: "dom (ladder a ob) = set (prices a ob)"
    and all: "list_all (\<lambda>q. levelOK a q (ladder a ob q)) (prices a ob)"
    by (simp_all add: wfSide_def)
  define F1 where "F1 = filter (\<lambda>q. better a q p) (prices a ob)"
  define F2 where "F2 = filter (\<lambda>q. q = p) (prices a ob)"
  define F3 where "F3 = filter (better a p) (prices a ob)"
  have pn1: "p \<notin> set F1" and pn3: "p \<notin> set F3" by (auto simp: F1_def F3_def better_irrefl)
  have nw: "filter (\<lambda>m. \<not> better a p (decOf (Order.Price m))) (queue a ob)
        = concat (map (\<lambda>q. levelOrders (ladder a ob q)) (F1 @ F2))"
    using filter_queue[OF all, of "\<lambda>q. \<not> better a p q"] sorted_notworse[OF srt, of p]
    by (simp add: queue_def F1_def F2_def)
  have w: "filter (\<lambda>m. better a p (decOf (Order.Price m))) (queue a ob)
        = concat (map (\<lambda>q. levelOrders (ladder a ob q)) F3)"
    using filter_queue[OF all, of "better a p"] by (simp add: queue_def F3_def)
  show ?thesis
  proof (cases "ladder a ob p")
    case None
    then have pn: "p \<notin> set (prices a ob)" using dm domIff by blast
    then have F2e: "F2 = []" by (auto simp: F2_def filter_empty_conv)
    have pr: "prices a (OrderBook_AddOrder ob order) = F1 @ [p] @ F3"
      using same(2) None insertPrice_split[OF srt pn] by (simp add: F1_def F3_def)
    have "queue a (OrderBook_AddOrder ob order) =
            concat (map (\<lambda>q. levelOrders (ladder a ob q)) F1) @ [order] @
            concat (map (\<lambda>q. levelOrders (ladder a ob q)) F3)"
      unfolding queue_def pr same(1)
      using None queue_map_upd_notin[OF pn1] queue_map_upd_notin[OF pn3]
      by (simp add: PriceLevel_AddOrder_def NewPriceLevel_def fun_upd_same del: fun_upd_apply)
    then show ?thesis using nw w F2e by simp
  next
    case (Some lv)
    then have pin: "p \<in> set (prices a ob)" using dm domIff by blast
    have "distinct (prices a ob)" by (rule sorted_better_distinct[OF srt])
    then have F2e: "F2 = [p]" using pin unfolding F2_def
      by (rule filter_eq_single)
    have pr: "prices a (OrderBook_AddOrder ob order) = F1 @ [p] @ F3"
      using same(2) Some sorted_split3[OF srt, of p] F2e by (simp add: F1_def F2_def F3_def)
    have "queue a (OrderBook_AddOrder ob order) =
            concat (map (\<lambda>q. levelOrders (ladder a ob q)) F1) @ (Orders lv @ [order]) @
            concat (map (\<lambda>q. levelOrders (ladder a ob q)) F3)"
      unfolding queue_def pr same(1)
      using Some queue_map_upd_notin[OF pn1] queue_map_upd_notin[OF pn3]
      by (simp add: PriceLevel_AddOrder_def fun_upd_same del: fun_upd_apply)
    then show ?thesis using nw w F2e Some by simp
  qed
qed

lemma queue_sorted:
  assumes wf: "wfSide a ob"
  shows "sorted_wrt (\<lambda>m m'. \<not> better a (decOf (Order.Price m')) (decOf (Order.Price m))) (queue a ob)"
proof -
  from wf have srt: "sorted_wrt (better a) (prices a ob)"
    and all: "list_all (\<lambda>q. levelOK a q (ladder a ob q)) (prices a ob)"
    by (simp_all add: wfSide_def)
  have "sorted_wrt (\<lambda>m m'. \<not> better a (decOf (Order.Price m')) (decOf (Order.Price m)))
          (concat (map (\<lambda>q. levelOrders (l q)) ps)) \<and>
        (\<forall>m \<in> set (concat (map (\<lambda>q. levelOrders (l q)) ps)). decOf (Order.Price m) \<in> set ps)"
    if "sorted_wrt (better a) ps" "list_all (\<lambda>q. levelOK a q (l q)) ps" for ps l
    using that
  proof (induction ps)
    case Nil
    then show ?case by simp
  next
    case (Cons q ps)
    then have ih: "sorted_wrt (\<lambda>m m'. \<not> better a (decOf (Order.Price m')) (decOf (Order.Price m)))
          (concat (map (\<lambda>q. levelOrders (l q)) ps))"
      "\<forall>m \<in> set (concat (map (\<lambda>q. levelOrders (l q)) ps)). decOf (Order.Price m) \<in> set ps"
      by simp_all
    from Cons.prems have lvl: "\<forall>m \<in> set (levelOrders (l q)). decOf (Order.Price m) = q"
      by (auto simp: levelOK_def list_all_iff restingOK_def split: option.splits)
    from Cons.prems have qb: "\<forall>q' \<in> set ps. better a q q'" by simp
    have s1: "sorted_wrt (\<lambda>m m'. \<not> better a (decOf (Order.Price m')) (decOf (Order.Price m))) (levelOrders (l q))"
      using lvl by (auto simp: sorted_wrt_iff_nth_less better_irrefl)
    show ?case
      using ih lvl qb s1 better_asym by (auto simp: sorted_wrt_append)
  qed
  from this[OF srt all] show ?thesis by (simp add: queue_def)
qed

lemma updatedInv_step:
  assumes wf: "wfBook ob" and inv: "updatedInv a order ob0 r ob res" and rpos: "0 < r"
    and a: "a = (Order.Side order = 1)"
    and nx: "matchStep order guard r ob res = Next (r', ob', res')"
  shows "updatedInv a order ob0 r' ob' res'"
proof -
  have wfa: "wfSide a ob" using wf wfBook_sides[of ob a] by simp
  from inv have mi: "makersInv a order ob0 r ob res" and emp: "UpdatedOrders res = []"
    using rpos by (auto simp: updatedInv_def)
  have mi': "makersInv a order ob0 r' ob' res'" by (rule makersInv_step[OF wf mi rpos a nx])
  from mi rpos obtain ms where q0: "queue a ob0 = ms @ queue a ob" by (auto simp: makersInv_def)
  from wfa a nx show ?thesis
  proof (cases rule: matchStep_NextE)
    case (Fill p ps lv m ms' x)
    then show ?thesis using mi' emp by (simp add: updatedInv_def)
  next
    case (Part p ps lv m ms' m')
    from wfSide_head[OF wfa Part(1)] Part(2,3) have mok: "restingOK a p m" by (metis list.inject option.inject)
    from queue_front[OF wfa Part(1,2,3,8,9)] obtain qs where q: "queue a ob = m # qs" "queue a ob' = m' # qs"
      by blast
    have "m \<in> set (queue a ob0)" using q0 q(1) by simp
    moreover have "m' \<in> set (queue a ob')" using q(2) by simp
    ultimately have "overwritten a ob0 ob' m'"
      unfolding overwritten_def using mok rpos Part(5)
      by (intro conjI bexI[of _ m]) (simp_all add: Part(7) decOf_def restingOK_def)
    then show ?thesis using mi' emp Part(6) by (simp add: updatedInv_def Part(13) Part(7))
  qed
qed

lemma matchLoop_updated:
  assumes "wfBook ob0" "a = (Order.Side order = 1)"
  shows "\<exists>r ob res. matchLoop order guard r0 ob0 emptyResult = Some (Inr (r, ob, res)) \<and>
           wfBook ob \<and> updatedInv a order ob0 r ob res"
proof -
  have "\<exists>r ob res. matchLoop order guard r0 ob0 emptyResult = Some (Inr (r, ob, res)) \<and>
           wfBook ob \<and> updatedInv a order ob0 r ob res \<and>
           (r \<le> 0 \<or> matchStep order guard r ob res = Break)"
  proof (rule matchLoop_rule[OF assms(1)])
    show "updatedInv a order ob0 r0 ob0 emptyResult"
      by (simp add: updatedInv_def makersInv_def emptyResult_def)
  next
    fix r ob res r' ob' res'
    assume "wfBook ob" "updatedInv a order ob0 r ob res" "0 < r"
      "matchStep order guard r ob res = Next (r', ob', res')"
    then show "updatedInv a order ob0 r' ob' res'" using updatedInv_step assms(2) by blast
  qed
  then show ?thesis by blast
qed

lemma queue_AddOrder_other:
  assumes "a = (Order.Side order = 1)"
  shows "queue a (OrderBook_AddOrder ob order) = queue a ob"
proof -
  have na: "(\<not> a) = (Order.Side order \<noteq> 1)" using assms by simp
  have "prices a (OrderBook_AddOrder ob order) = prices a ob"
    "ladder a (OrderBook_AddOrder ob order) = ladder a ob"
    using AddOrder_other[OF na, of ob] by simp_all
  then show ?thesis by (rule queue_cong)
qed

lemma updateCurrentOrder_book:
  "updateCurrentOrder order r ob res = (o1, ob1, res1) \<Longrightarrow>
     ob1 = ob \<or> (ob1 = OrderBook_AddOrder ob o1 \<and> Order.Side o1 = Order.Side order)"
  by (auto simp: updateCurrentOrder_def Let_def split: if_splits)

lemma ProcessOrder_market_sub:
  assumes "Order.Type order = 2"
    and "matchLoop order (guardOf order) (decOf (Order.Amount order)) (bookOf me (Order.Symbol order))
           emptyResult = Some (Inr (r, ob, res))"
  shows "\<exists>res1 o1. ProcessOrder me (Some order) =
           Some (Inr (Processed res1 o1 (me\<lparr>orderBooks := (orderBooks me)(Order.Symbol order \<mapsto> ob)\<rparr>))) \<and>
           set (UpdatedOrders res1) \<subseteq> insert o1 (set (UpdatedOrders res))"
proof (cases "r < decOf (Order.Amount order)")
  case True
  then show ?thesis
    using ProcessOrder_market[OF assms] by (cases "r = 0") simp_all
next
  case False
  then show ?thesis using ProcessOrder_market[OF assms] by auto
qed


section \<open>Evaluation and settlement lemmas\<close>

lemmas engine_eval = ProcessOrder_def GetOrderBook_def processLimitOrder_def processMarketOrder_def
  matchLoop.simps matchStep_def updateMatchedOrder_def updateCurrentOrder_def matchOrders_def createTrade_def
  storeFront_def OrderBook_AddOrder_def OrderBook_RemoveOrder_def OrderBook_UpdateOrderAmount_def
  PriceLevel_AddOrder_def PriceLevel_RemoveOrder_def PriceLevel_UpdateOrderAmount_def IsEmpty_def
  GetBestAsk_def GetBestBid_def NewOrderBook_def NewPriceLevel_def insertBidPrice_def insertAskPrice_def
  removeBidPrice_def removeAskPrice_def decOf_def Let_def NewMatchingEngine_def

lemmas service_eval = CancelOrder_def getUserIDFromContext_def ParseUint_def calculateUnfreezeAmount_def
  UpdateStatus_def UnfreezeBalance_def FreezeBalance_def FindByUserIDAndCurrency_def UpdateBalance_def
  OrderModel_Update_def parseSymbol_def changeOf_def applyBalanceChange_def updateUserBalances_def
  executeTrades_def ProcessOrderWithMatching_def

lemma CancelOrder_engine:
  "CancelOrder svcCtx ctx orderID = Inr (result, svcCtx') \<Longrightarrow> MatchingEngine svcCtx' = MatchingEngine svcCtx"
  by (auto simp: CancelOrder_def Let_def split: sum.splits option.splits prod.splits if_splits)








section \<open>Cancelling\<close>

text \<open>
  C9. Cancelling an order whose status is Canceled (4) returns
  \<^verbatim>\<open>ErrOrderAlreadyCanceled\<close>, and cancelling one whose status is Filled (3)
  returns \<^verbatim>\<open>ErrOrderAlreadyFilled\<close>; in both cases the service context (orders,
  balances, trades, the engine's books) is left exactly as it was. The caller is the
  authenticated owner of the order, that is, the request context holds a string that
  \<^verbatim>\<open>ParseUint\<close> reads as the order's user id: an unknown order or another user's
  order is refused before the status is looked at.
\<close>

theorem cancel_terminal_order_rejected:
  assumes "OrderModel svcCtx orderID = Some order" and "ParseUint userIDStr = Some (Order.UserID order)"
  shows "(Order.Status order = 4 \<longrightarrow>
            CancelOrder svcCtx (StringValue userIDStr) orderID = Inr (Inl ErrOrderAlreadyCanceled, svcCtx)) \<and>
         (Order.Status order = 3 \<longrightarrow>
            CancelOrder svcCtx (StringValue userIDStr) orderID = Inr (Inl ErrOrderAlreadyFilled, svcCtx))"
  using assms by (simp add: CancelOrder_def getUserIDFromContext_def)

theorem cancel_terminal_order_rejected_witness:
  "OrderModel (cancelCtx 4) 7 = Some (orderSeven 4) \<and> ParseUint ''1'' = Some (Order.UserID (orderSeven 4)) \<and>
   Order.Status (orderSeven 4) = 4 \<and>
   CancelOrder (cancelCtx 4) (StringValue ''1'') 7 = Inr (Inl ErrOrderAlreadyCanceled, cancelCtx 4) \<and>
   OrderModel (cancelCtx 3) 7 = Some (orderSeven 3) \<and> ParseUint ''1'' = Some (Order.UserID (orderSeven 3)) \<and>
   Order.Status (orderSeven 3) = 3 \<and>
   CancelOrder (cancelCtx 3) (StringValue ''1'') 7 = Inr (Inl ErrOrderAlreadyFilled, cancelCtx 3)"
proof -
  have a: "OrderModel (cancelCtx 4) 7 = Some (orderSeven 4)" "OrderModel (cancelCtx 3) 7 = Some (orderSeven 3)"
    by (simp_all add: cancelCtx_def)
  have b: "ParseUint ''1'' = Some (Order.UserID (orderSeven 4))"
    "ParseUint ''1'' = Some (Order.UserID (orderSeven 3))"
    by (simp_all add: orderSeven_def newOrder_def ParseUint_def)
  have c: "Order.Status (orderSeven 4) = 4" "Order.Status (orderSeven 3) = 3"
    by (simp_all add: orderSeven_def)
  show ?thesis
    using cancel_terminal_order_rejected [OF a(1) b(1)] cancel_terminal_order_rejected [OF a(2) b(2)]
      a b c by simp
qed


section \<open>The book after a call of the engine\<close>

text \<open>
  The invariant of a book: both ladders are well formed (\<open>wfBook\<close>: the price slice is
  strictly sorted, best price first, and lists exactly the keys of the ladder map; every
  level is stored under its own price, is not empty, and holds orders of that price and
  side) and no bid price reaches an ask price (\<open>uncrossed\<close>). A new book has it; the
  next theorem shows that \<^verbatim>\<open>ProcessOrder\<close> keeps it.
\<close>

lemma bookInv_NewOrderBook: "bookInv (NewOrderBook symbol)"
  by (simp add: bookInv_def wfBook_def wfSide_def uncrossed_def NewOrderBook_def ladder_def prices_def)

text \<open>
  C8. After any \<^verbatim>\<open>ProcessOrder\<close> call returns, whenever both sides of that
  symbol's order book are non-empty, the best bid price is strictly less than the best
  ask price. The call is made on a book that satisfies the invariant, with an order whose
  amount and filled amount are not negative (the order service admits only positive
  amounts and creates orders with nothing filled); then the call does return, the book
  satisfies the invariant again, and the best bid lies strictly below the best ask.
\<close>

theorem book_not_crossed_after_ProcessOrder:
  assumes inv: "bookInv (bookOf me (Order.Symbol order))"
    and amt: "0 \<le> decOf (Order.Amount order)" and fil: "0 \<le> decOf (FilledAmount order)"
  shows "\<exists>out. ProcessOrder me (Some order) = Some (Inr out) \<and>
           bookInv (bookOf (engineAfter out) (Order.Symbol order)) \<and>
           (\<forall>pb lb pa la.
              GetBestBid (bookOf (engineAfter out) (Order.Symbol order)) = Some (pb, Some lb) \<and>
              GetBestAsk (bookOf (engineAfter out) (Order.Symbol order)) = Some (pa, Some la)
              \<longrightarrow> PriceLevel.Price lb < PriceLevel.Price la)"
proof -
  define sym where "sym = Order.Symbol order"
  define ob0 where "ob0 = bookOf me sym"
  define a where "a = (Order.Side order = 1)"
  have wf0: "wfBook ob0" using inv by (simp add: bookInv_def ob0_def sym_def)
  have inv0: "bookInv ob0" using inv by (simp add: ob0_def sym_def)
  have "\<exists>out. ProcessOrder me (Some order) = Some (Inr out) \<and> bookInv (bookOf (engineAfter out) sym)"
  proof (cases "Order.Type order = 1 \<or> Order.Type order = 2")
    case False
    then show ?thesis
      using ProcessOrder_unsupported[of order me] inv0
      by (simp add: bookOf_snd_GetOrderBook ob0_def sym_def)
  next
    case ty: True
    from matchLoop_frame[OF wf0 amt a_def, of "guardOf order" emptyResult]
    obtain r ob res where
      lp: "matchLoop order (guardOf order) (decOf (Order.Amount order)) ob0 emptyResult = Some (Inr (r, ob, res))"
      and wf: "wfBook ob" and fr: "loopFrame a ob0 r ob"
      and ex: "r \<le> 0 \<or> matchStep order (guardOf order) r ob res = Break"
      by blast
    have invl: "bookInv ob" by (rule bookInv_after_loop[OF inv0 wf fr])
    show ?thesis
    proof (cases "Order.Type order = 1")
      case lim: True
      obtain o1 ob1 res1 where uc: "updateCurrentOrder order r ob res = (o1, ob1, res1)"
        by (cases "updateCurrentOrder order r ob res") auto
      have po: "ProcessOrder me (Some order) =
           Some (Inr (Processed res1 o1 (me\<lparr>orderBooks := (orderBooks me)(sym \<mapsto> ob1)\<rparr>)))"
        using ProcessOrder_limit[OF lim _ uc] lp by (simp add: ob0_def sym_def)
      have "bookInv ob1"
      proof (cases "r = 0")
        case True
        then show ?thesis using uc invl by (auto simp: updateCurrentOrder_def Let_def)
      next
        case False
        then have rpos: "0 < r" using fr by (simp add: loopFrame_def)
        then have br: "matchStep order (guardOf order) r ob res = Break" using ex by simp
        have wfa: "wfSide a ob" using wf wfBook_sides[of ob a] by simp
        from matchStep_BreakD[OF wfa a_def br]
        have "prices a ob = [] \<or> better a (decOf (Order.Price order)) (hd (prices a ob))"
          using lim by (auto simp: guardOf_def)
        then have g: "\<forall>q \<in> set (prices a ob). better a (decOf (Order.Price order)) q"
          using wfSide_best_all[OF wfa] by blast
        show ?thesis
        proof (cases "r < decOf (Order.Amount order)")
          case True
          define o2 where "o2 = order\<lparr>Order.Status := 2, FilledAmount := Some (decOf (Order.Amount order) - r),
                               Order.Amount := Some r\<rparr>"
          have "ob1 = OrderBook_AddOrder ob o2"
            using uc False True by (auto simp: updateCurrentOrder_def Let_def o2_def)
          moreover have "bookInv (OrderBook_AddOrder ob o2)"
            by (rule bookInv_add[OF invl, where a=a]) (use True g a_def in \<open>simp_all add: o2_def decOf_def\<close>)
          ultimately show ?thesis by simp
        next
          case nl: False
          define o2 where "o2 = order\<lparr>Order.Status := 1\<rparr>"
          have "ob1 = OrderBook_AddOrder ob o2"
            using uc False nl by (auto simp: updateCurrentOrder_def Let_def o2_def)
          moreover have "bookInv (OrderBook_AddOrder ob o2)"
            by (rule bookInv_add[OF invl, where a=a]) (use fil g a_def in \<open>simp_all add: o2_def\<close>)
          ultimately show ?thesis by simp
        qed
      qed
      then show ?thesis using po by (simp add: bookOf_put)
    next
      case False
      then have mk: "Order.Type order = 2" using ty by simp
      show ?thesis
        using ProcessOrder_market[OF mk, of me r ob res] lp invl
        by (simp add: ob0_def sym_def bookOf_put)
    qed
  qed
  then obtain out where o: "ProcessOrder me (Some order) = Some (Inr out)"
    "bookInv (bookOf (engineAfter out) sym)" by blast
  show ?thesis
    using o bookInv_best[OF o(2)] unfolding sym_def by blast
qed

lemma bookInv_sampleBook: "bookInv (bookOf (engineOf sampleBook) ''BTC/USDT'')"
  by (auto simp: bookOf_def GetOrderBook_def engineOf_def bookInv_def wfBook_def wfSide_def
      uncrossed_def sampleBook_def ladder_def prices_def better_def levelOK_def restingOK_def
      newOrder_def decOf_def)

theorem book_not_crossed_after_ProcessOrder_witness:
  "bookInv (bookOf (engineOf sampleBook) (Order.Symbol buyTwelve)) \<and>
   0 \<le> decOf (Order.Amount buyTwelve) \<and> 0 \<le> decOf (FilledAmount buyTwelve) \<and>
   (\<exists>out. ProcessOrder (engineOf sampleBook) (Some buyTwelve) = Some (Inr out) \<and>
      bookInv (bookOf (engineAfter out) (Order.Symbol buyTwelve)) \<and>
      (\<forall>pb lb pa la.
         GetBestBid (bookOf (engineAfter out) (Order.Symbol buyTwelve)) = Some (pb, Some lb) \<and>
         GetBestAsk (bookOf (engineAfter out) (Order.Symbol buyTwelve)) = Some (pa, Some la)
         \<longrightarrow> PriceLevel.Price lb < PriceLevel.Price la))"
proof -
  have s: "Order.Symbol buyTwelve = ''BTC/USDT''" by (simp add: buyTwelve_def newOrder_def)
  have h1: "bookInv (bookOf (engineOf sampleBook) (Order.Symbol buyTwelve))"
    unfolding s by (rule bookInv_sampleBook)
  have h2: "0 \<le> decOf (Order.Amount buyTwelve)" by (simp add: buyTwelve_def newOrder_def decOf_def)
  have h3: "0 \<le> decOf (FilledAmount buyTwelve)" by (simp add: buyTwelve_def newOrder_def decOf_def)
  show ?thesis
    using book_not_crossed_after_ProcessOrder [OF h1 h2 h3] h1 h2 h3 by simp
qed


section \<open>Trades and their makers\<close>

text \<open>
  C2. For every trade emitted by \<^verbatim>\<open>ProcessOrder\<close>, for every order type (limit
  and market) and side, the trade's price equals the resting (maker) order's price
  level, never the incoming (taker) order's price: on a well-formed book the call returns,
  and each trade it emits is a trade of the incoming order with an order \<open>m\<close> that was
  resting on the opposite ladder, in the level stored under \<open>m\<close>'s price, and the trade's
  price is that level's price, which is \<open>m\<close>'s price.
\<close>

theorem trade_price_is_maker_price:
  assumes wf: "wfBook (bookOf me (Order.Symbol order))"
    and ty: "Order.Type order = 1 \<or> Order.Type order = 2"
  shows "\<exists>res order' me'. ProcessOrder me (Some order) = Some (Inr (Processed res order' me')) \<and>
           (\<forall>t \<in> set (Trades res).
              \<exists>lv m. ladder (Order.Side order = 1) (bookOf me (Order.Symbol order)) (decOf (Order.Price m)) = Some lv \<and>
                     m \<in> set (Orders lv) \<and>
                     makerOrderID (Order.Side order = 1) t = ID m \<and>
                     takerOrderID (Order.Side order = 1) t = ID order \<and>
                     Trade.Price t = Some (PriceLevel.Price lv) \<and>
                     Trade.Price t = Some (decOf (Order.Price m)))"
proof -
  define a where "a = (Order.Side order = 1)"
  define ob0 where "ob0 = bookOf me (Order.Symbol order)"
  from matchLoop_makers[OF wf a_def, of "guardOf order" "decOf (Order.Amount order)"]
  obtain r ob res where lp: "matchLoop order (guardOf order) (decOf (Order.Amount order)) ob0 emptyResult
        = Some (Inr (r, ob, res))" and mi: "makersInv a order ob0 r ob res"
    unfolding ob0_def by blast
  from ProcessOrder_trades[OF ty lp[unfolded ob0_def]] obtain res1 o1 me1 where
    po: "ProcessOrder me (Some order) = Some (Inr (Processed res1 o1 me1))" "Trades res1 = Trades res"
    by blast
  from mi obtain ms where ms: "list_all2 (tradeWith a order) (Trades res) ms" "prefix ms (queue a ob0)"
    by (auto simp: makersInv_def)
  have wfa: "wfSide a ob0" using wf wfBook_sides[of ob0 a] by (simp add: ob0_def)
  have "\<exists>lv m. ladder a ob0 (decOf (Order.Price m)) = Some lv \<and> m \<in> set (Orders lv) \<and>
                 makerOrderID a t = ID m \<and> takerOrderID a t = ID order \<and>
                 Trade.Price t = Some (PriceLevel.Price lv) \<and>
                 Trade.Price t = Some (decOf (Order.Price m))" if t: "t \<in> set (Trades res)" for t
  proof -
    from list_all2_memberD[OF ms(1) t] obtain m where m: "m \<in> set ms" "tradeWith a order t m"
      by blast
    from m(1) ms(2) have "m \<in> set (queue a ob0)" by (auto simp: prefix_def)
    from queue_member_level[OF wfa this] obtain lv where
      "ladder a ob0 (decOf (Order.Price m)) = Some lv" "m \<in> set (Orders lv)"
      "PriceLevel.Price lv = decOf (Order.Price m)" by blast
    with m(2) show ?thesis
      by (intro exI[of _ lv] exI[of _ m]) (simp add: tradeWith_def)
  qed
  then show ?thesis using po unfolding a_def ob0_def by auto
qed

lemma wfBook_sampleBook: "wfBook (bookOf (engineOf sampleBook) ''BTC/USDT'')"
  by (auto simp: bookOf_def GetOrderBook_def engineOf_def wfBook_def wfSide_def
      sampleBook_def ladder_def prices_def better_def levelOK_def restingOK_def
      newOrder_def decOf_def)

theorem trade_price_is_maker_price_witness:
  "wfBook (bookOf (engineOf sampleBook) (Order.Symbol buyTwelve)) \<and>
   (Order.Type buyTwelve = 1 \<or> Order.Type buyTwelve = 2) \<and>
   (\<exists>res order' me'. ProcessOrder (engineOf sampleBook) (Some buyTwelve) = Some (Inr (Processed res order' me')) \<and>
      (\<forall>t \<in> set (Trades res).
         \<exists>lv m. ladder (Order.Side buyTwelve = 1) (bookOf (engineOf sampleBook) (Order.Symbol buyTwelve))
                   (decOf (Order.Price m)) = Some lv \<and>
                m \<in> set (Orders lv) \<and>
                makerOrderID (Order.Side buyTwelve = 1) t = ID m \<and>
                takerOrderID (Order.Side buyTwelve = 1) t = ID buyTwelve \<and>
                Trade.Price t = Some (PriceLevel.Price lv) \<and>
                Trade.Price t = Some (decOf (Order.Price m))))"
proof -
  have s: "Order.Symbol buyTwelve = ''BTC/USDT''" by (simp add: buyTwelve_def newOrder_def)
  have h1: "wfBook (bookOf (engineOf sampleBook) (Order.Symbol buyTwelve))"
    unfolding s by (rule wfBook_sampleBook)
  have h2: "Order.Type buyTwelve = 1 \<or> Order.Type buyTwelve = 2"
    by (simp add: buyTwelve_def newOrder_def)
  show ?thesis
    using trade_price_is_maker_price [OF h1 h2] h1 h2 by simp
qed


text \<open>
  C3. For any book state and any incoming opposing order, the matcher selects makers in
  price-time priority: across price levels a strictly better-priced resting order is
  matched before any worse-priced one (asks ascending for an incoming buy, bids
  descending for an incoming sell); among resting orders at the same price, the
  earlier-inserted order is matched first (strict FIFO).

  \<open>queue\<close> lists the resting orders of a side level by level, best price first, each
  level front to back. The theorem has three parts. The makers of the trades of one call,
  in the order of the trades, are an initial piece of the queue of the opposite side: no
  resting order is passed over. No order in that queue has a strictly better price than
  an order before it. And \<^verbatim>\<open>AddOrder\<close> puts a resting order behind every order whose
  price is not worse than its own (so behind the earlier ones of its own price) and
  before every order of a worse price.
\<close>

theorem price_time_priority:
  assumes wf: "wfBook (bookOf me (Order.Symbol order))"
    and ty: "Order.Type order = 1 \<or> Order.Type order = 2"
    and wf': "wfBook ob"
  shows "(\<exists>res order' me' ms.
            ProcessOrder me (Some order) = Some (Inr (Processed res order' me')) \<and>
            list_all2 (tradeWith (Order.Side order = 1) order) (Trades res) ms \<and>
            prefix ms (queue (Order.Side order = 1) (bookOf me (Order.Symbol order)))) \<and>
         sorted_wrt (\<lambda>m m'. \<not> better (Order.Side order = 1) (decOf (Order.Price m')) (decOf (Order.Price m)))
            (queue (Order.Side order = 1) (bookOf me (Order.Symbol order))) \<and>
         queue (Order.Side resting \<noteq> 1) (OrderBook_AddOrder ob resting) =
            filter (\<lambda>m. \<not> better (Order.Side resting \<noteq> 1) (decOf (Order.Price resting)) (decOf (Order.Price m)))
               (queue (Order.Side resting \<noteq> 1) ob) @ [resting] @
            filter (\<lambda>m. better (Order.Side resting \<noteq> 1) (decOf (Order.Price resting)) (decOf (Order.Price m)))
               (queue (Order.Side resting \<noteq> 1) ob)"
proof -
  define a where "a = (Order.Side order = 1)"
  define ob0 where "ob0 = bookOf me (Order.Symbol order)"
  from matchLoop_makers[OF wf a_def, of "guardOf order" "decOf (Order.Amount order)"]
  obtain r ob1 res where lp: "matchLoop order (guardOf order) (decOf (Order.Amount order)) ob0 emptyResult
        = Some (Inr (r, ob1, res))" and mi: "makersInv a order ob0 r ob1 res"
    unfolding ob0_def by blast
  from ProcessOrder_trades[OF ty lp[unfolded ob0_def]] obtain res1 o1 me1 where
    po: "ProcessOrder me (Some order) = Some (Inr (Processed res1 o1 me1))" "Trades res1 = Trades res"
    by blast
  from mi obtain ms where ms: "list_all2 (tradeWith a order) (Trades res) ms" "prefix ms (queue a ob0)"
    by (auto simp: makersInv_def)
  have wfa: "wfSide a ob0" using wf wfBook_sides[of ob0 a] by (simp add: ob0_def)
  have wfs: "wfSide (Order.Side resting \<noteq> 1) ob"
    using wf' wfBook_sides[of ob "Order.Side resting \<noteq> 1"] by simp
  have 1: "\<exists>res order' me' ms.
            ProcessOrder me (Some order) = Some (Inr (Processed res order' me')) \<and>
            list_all2 (tradeWith a order) (Trades res) ms \<and> prefix ms (queue a ob0)"
    using po ms by auto
  show ?thesis
    using 1 queue_sorted[OF wfa] queue_AddOrder[OF wfs refl refl]
    unfolding a_def ob0_def by blast
qed

theorem price_time_priority_witness:
  "wfBook (bookOf (engineOf sampleBook) (Order.Symbol buyTwelve)) \<and>
   (Order.Type buyTwelve = 1 \<or> Order.Type buyTwelve = 2) \<and>
   wfBook sampleBook \<and>
   (\<exists>res order' me' ms.
      ProcessOrder (engineOf sampleBook) (Some buyTwelve) = Some (Inr (Processed res order' me')) \<and>
      list_all2 (tradeWith (Order.Side buyTwelve = 1) buyTwelve) (Trades res) ms \<and>
      prefix ms (queue (Order.Side buyTwelve = 1) (bookOf (engineOf sampleBook) (Order.Symbol buyTwelve)))) \<and>
   queue (Order.Side buyTwelve \<noteq> 1) (OrderBook_AddOrder sampleBook buyTwelve) =
      filter (\<lambda>m. \<not> better (Order.Side buyTwelve \<noteq> 1) (decOf (Order.Price buyTwelve)) (decOf (Order.Price m)))
         (queue (Order.Side buyTwelve \<noteq> 1) sampleBook) @ [buyTwelve] @
      filter (\<lambda>m. better (Order.Side buyTwelve \<noteq> 1) (decOf (Order.Price buyTwelve)) (decOf (Order.Price m)))
         (queue (Order.Side buyTwelve \<noteq> 1) sampleBook)"
proof -
  have s: "Order.Symbol buyTwelve = ''BTC/USDT''" by (simp add: buyTwelve_def newOrder_def)
  have h1: "wfBook (bookOf (engineOf sampleBook) (Order.Symbol buyTwelve))"
    unfolding s by (rule wfBook_sampleBook)
  have h2: "Order.Type buyTwelve = 1 \<or> Order.Type buyTwelve = 2"
    by (simp add: buyTwelve_def newOrder_def)
  have h3: "wfBook sampleBook"
    using wfBook_sampleBook by (simp add: bookOf_def GetOrderBook_def engineOf_def)
  show ?thesis
    using price_time_priority [OF h1 h2 h3, of buyTwelve] h1 h2 h3 by simp
qed


section \<open>Partial fills\<close>

text \<open>
  What \<^verbatim>\<open>ProcessOrder\<close> writes into the \<^verbatim>\<open>Amount\<close> field of an order that it
  leaves partially filled. For the taker: when a limit order comes back with status 2
  (partially filled), its amount is the submitted amount minus its filled amount, which is
  positive, so the amount is smaller than submitted; and this is the order that rests in
  the book. For a maker: every order of status 2 among the updated orders, the taker
  apart, is still in the queue of its side (\<open>overwritten\<close>), with the id of an order \<open>m\<close>
  that rested there before the call, a larger filled amount than \<open>m\<close>, and as amount the
  amount stored in \<open>m\<close> minus the new filled amount.
\<close>

lemma stored_amount_after_partial_fill:
  assumes wf: "wfBook (bookOf me (Order.Symbol order))"
    and ty: "Order.Type order = 1 \<or> Order.Type order = 2"
  shows "\<exists>res order' me'. ProcessOrder me (Some order) = Some (Inr (Processed res order' me')) \<and>
           (Order.Type order = 1 \<and> Order.Status order' = 2 \<longrightarrow>
              Order.Amount order' = Some (decOf (Order.Amount order) - decOf (FilledAmount order')) \<and>
              0 < decOf (FilledAmount order') \<and>
              decOf (Order.Amount order') < decOf (Order.Amount order) \<and>
              order' \<in> set (queue (Order.Side order \<noteq> 1) (bookOf me' (Order.Symbol order)))) \<and>
           (\<forall>u \<in> set (UpdatedOrders res). Order.Status u = 2 \<longrightarrow>
              u = order' \<or>
              overwritten (Order.Side order = 1) (bookOf me (Order.Symbol order))
                 (bookOf me' (Order.Symbol order)) u)"
proof -
  define a where "a = (Order.Side order = 1)"
  define sym where "sym = Order.Symbol order"
  define ob0 where "ob0 = bookOf me sym"
  from matchLoop_updated[OF wf a_def, of "guardOf order" "decOf (Order.Amount order)"]
  obtain r ob res where lp: "matchLoop order (guardOf order) (decOf (Order.Amount order)) ob0 emptyResult
        = Some (Inr (r, ob, res))" and wfl: "wfBook ob" and ui: "updatedInv a order ob0 r ob res"
    unfolding ob0_def sym_def by blast
  from ui have upd: "\<forall>u \<in> set (UpdatedOrders res). Order.Status u = 2 \<and> overwritten a ob0 ob u"
    by (simp add: updatedInv_def)
  show ?thesis
  proof (cases "Order.Type order = 1")
    case lim: True
    obtain o1 ob1 res1 where uc: "updateCurrentOrder order r ob res = (o1, ob1, res1)"
      by (cases "updateCurrentOrder order r ob res") auto
    have po: "ProcessOrder me (Some order) =
         Some (Inr (Processed res1 o1 (me\<lparr>orderBooks := (orderBooks me)(sym \<mapsto> ob1)\<rparr>)))"
      using ProcessOrder_limit[OF lim _ uc] lp by (simp add: ob0_def sym_def)
    have qa: "queue a ob1 = queue a ob"
    proof -
      from updateCurrentOrder_book[OF uc] consider "ob1 = ob"
        | "ob1 = OrderBook_AddOrder ob o1" "Order.Side o1 = Order.Side order" by blast
      then show ?thesis
      proof cases
        case 1
        then show ?thesis by simp
      next
        case 2
        have "a = (Order.Side o1 = 1)" using 2(2) a_def by simp
        from queue_AddOrder_other[OF this, of ob] 2(1) show ?thesis by simp
      qed
    qed
    have sub: "set (UpdatedOrders res1) \<subseteq> insert o1 (set (UpdatedOrders res))"
      using uc by (auto simp: updateCurrentOrder_def Let_def split: if_splits)
    have makers: "\<forall>u \<in> set (UpdatedOrders res1). Order.Status u = 2 \<longrightarrow> u = o1 \<or> overwritten a ob0 ob1 u"
      using sub upd qa by (auto simp: overwritten_def)
    have taker: "Order.Amount o1 = Some (decOf (Order.Amount order) - decOf (FilledAmount o1)) \<and>
              0 < decOf (FilledAmount o1) \<and> decOf (Order.Amount o1) < decOf (Order.Amount order) \<and>
              o1 \<in> set (queue (Order.Side order \<noteq> 1) ob1)" if st: "Order.Status o1 = 2"
    proof -
      from uc st have br: "r \<noteq> 0" "r < decOf (Order.Amount order)"
        by (auto simp: updateCurrentOrder_def Let_def split: if_splits)
      then have o1: "o1 = order\<lparr>Order.Status := 2, FilledAmount := Some (decOf (Order.Amount order) - r),
                               Order.Amount := Some r\<rparr>" and ob1: "ob1 = OrderBook_AddOrder ob o1"
        using uc by (auto simp: updateCurrentOrder_def Let_def)
      have s: "Order.Side o1 = Order.Side order" by (simp add: o1)
      have wfs: "wfSide (Order.Side o1 \<noteq> 1) ob" using wfl wfBook_sides[of ob "Order.Side o1 \<noteq> 1"] by simp
      have "o1 \<in> set (queue (Order.Side o1 \<noteq> 1) (OrderBook_AddOrder ob o1))"
        unfolding queue_AddOrder[OF wfs refl refl] by simp
      then show ?thesis using br ob1 s by (simp add: o1 decOf_def)
    qed
    define me1 where "me1 = me\<lparr>orderBooks := (orderBooks me)(sym \<mapsto> ob1)\<rparr>"
    have b: "bookOf me1 sym = ob1" unfolding me1_def by (rule bookOf_put)
    have T: "Order.Type order = 1 \<and> Order.Status o1 = 2 \<longrightarrow>
              Order.Amount o1 = Some (decOf (Order.Amount order) - decOf (FilledAmount o1)) \<and>
              0 < decOf (FilledAmount o1) \<and>
              decOf (Order.Amount o1) < decOf (Order.Amount order) \<and>
              o1 \<in> set (queue (Order.Side order \<noteq> 1) (bookOf me1 sym))"
      unfolding b using taker by blast
    have M: "\<forall>u \<in> set (UpdatedOrders res1). Order.Status u = 2 \<longrightarrow>
              u = o1 \<or> overwritten a ob0 (bookOf me1 sym) u"
      unfolding b using makers by blast
    have "ProcessOrder me (Some order) = Some (Inr (Processed res1 o1 me1))"
      using po by (simp add: me1_def)
    note F = conjI[OF this conjI[OF T M], unfolded a_def ob0_def sym_def]
    show ?thesis
      by (rule exI[of _ res1], rule exI[of _ o1], rule exI[of _ me1], rule F)
  next
    case False
    then have mk: "Order.Type order = 2" using ty by simp
    define me1 where "me1 = me\<lparr>orderBooks := (orderBooks me)(sym \<mapsto> ob)\<rparr>"
    from ProcessOrder_market_sub[OF mk lp[unfolded ob0_def sym_def]] obtain res1 o1 where
      po: "ProcessOrder me (Some order) = Some (Inr (Processed res1 o1 me1))"
      and sub: "set (UpdatedOrders res1) \<subseteq> insert o1 (set (UpdatedOrders res))"
      unfolding sym_def me1_def by blast
    have b: "bookOf me1 sym = ob" unfolding me1_def by (rule bookOf_put)
    have T: "Order.Type order = 1 \<and> Order.Status o1 = 2 \<longrightarrow>
              Order.Amount o1 = Some (decOf (Order.Amount order) - decOf (FilledAmount o1)) \<and>
              0 < decOf (FilledAmount o1) \<and>
              decOf (Order.Amount o1) < decOf (Order.Amount order) \<and>
              o1 \<in> set (queue (Order.Side order \<noteq> 1) (bookOf me1 sym))"
      using False by simp
    have M: "\<forall>u \<in> set (UpdatedOrders res1). Order.Status u = 2 \<longrightarrow>
              u = o1 \<or> overwritten a ob0 (bookOf me1 sym) u"
      unfolding b using sub upd by auto
    note F = conjI[OF po conjI[OF T M], unfolded a_def ob0_def sym_def]
    show ?thesis
      by (rule exI[of _ res1], rule exI[of _ o1], rule exI[of _ me1], rule F)
  qed
qed

text \<open>
  C10. Whenever \<^verbatim>\<open>ProcessOrder\<close> leaves an order partially filled (a limit taker
  that rests with a partial fill, or a resting maker that is partially consumed) it
  overwrites the order's \<^verbatim>\<open>Amount\<close> field with the remaining quantity (original
  amount minus the filled quantity), so the stored \<^verbatim>\<open>Amount\<close> no longer equals the
  originally submitted order quantity while \<^verbatim>\<open>FilledAmount\<close> keeps accumulating.

  The first partial fill of an order does that. A later one does not:
  \<^verbatim>\<open>updateMatchedOrder\<close> computes \<^verbatim>\<open>remainingAmount\<close> as
  \<^verbatim>\<open>orderAmount.Sub(newFilledAmount)\<close>, where \<^verbatim>\<open>orderAmount\<close> is the stored
  amount, already the remainder of the earlier fill, and \<^verbatim>\<open>newFilledAmount\<close> is
  everything filled so far. A resting sell of 10 at 100 is hit by a limit buy of 3 and is
  left with amount 7 and filled amount 3. A limit buy of 1 then leaves it, still resting,
  with filled amount 4 and amount \<open>7 - 4 = 3\<close>; the remaining quantity is
  \<open>10 - 4 = 6\<close>.
\<close>

theorem second_partial_fill_understates_amount:
  "(case ProcessOrder (engineOf tenAsk) (Some (newOrder 8 5 1 1 (Some 3) (Some 100))) of
      Some (Inr (Processed res1 order1 me1)) \<Rightarrow>
        map (\<lambda>u. (ID u, Order.Amount u, FilledAmount u, Order.Status u)) (UpdatedOrders res1)
          = [(2, Some 7, Some 3, 2)] \<and>
        (case ProcessOrder me1 (Some (newOrder 9 6 1 1 (Some 1) (Some 100))) of
           Some (Inr (Processed res2 order2 me2)) \<Rightarrow>
             map (\<lambda>u. (ID u, Order.Amount u, FilledAmount u, Order.Status u)) (UpdatedOrders res2)
               = [(2, Some 3, Some 4, 2)] \<and>
             map (\<lambda>u. (ID u, Order.Amount u, FilledAmount u, Order.Status u))
               (queue True (bookOf me2 ''BTC/USDT'')) = [(2, Some 3, Some 4, 2)] \<and>
             map (\<lambda>u. decOf (Order.Amount u)) (UpdatedOrders res2) \<noteq>
               map (\<lambda>u. 10 - decOf (FilledAmount u)) (UpdatedOrders res2)
         | _ \<Rightarrow> False)
    | _ \<Rightarrow> False)"
  by (simp add: engine_eval engineOf_def tenAsk_def newOrder_def
      queue_def bookOf_def ladder_def prices_def levelOrders_def)


section \<open>Market orders\<close>

text \<open>
  C4. For every market order submitted to \<^verbatim>\<open>ProcessOrder\<close>: the order is never
  inserted into the book; if fully consumed its status becomes Filled; if only partially
  consumed its status becomes Canceled; if it matches nothing at all its status becomes
  Canceled.

  The last part is not what \<^verbatim>\<open>processMarketOrder\<close> does. It assigns a status only
  under \<^verbatim>\<open>if remainingAmount.LessThan(orderAmount)\<close>; a market order that meets an
  empty opposite side comes back as it went in, with status 1 (pending), and is not among
  the updated orders. Here: the market buy of 12 on an engine without books.
\<close>

theorem market_order_without_match_stays_pending:
  "ProcessOrder NewMatchingEngine (Some marketBuyTwelve) =
     Some (Inr (Processed \<lparr>Trades = [], UpdatedOrders = [], FilledOrders = []\<rparr> marketBuyTwelve
        \<lparr>orderBooks = [''BTC/USDT'' \<mapsto> NewOrderBook ''BTC/USDT'']\<rparr>)) \<and>
   Order.Status marketBuyTwelve = 1"
  by (simp add: engine_eval marketBuyTwelve_def newOrder_def)

text \<open>
  C5. For a market-buy order, \<^verbatim>\<open>amount\<close> is expressed in the quote currency (total
  spend): the matching loop decrements the remaining quantity \<open>r\<close> by \<open>x * maker.price\<close>
  for each trade of base quantity \<open>x\<close>, not by \<open>x\<close>; correspondingly the lifecycle service
  freezes exactly \<^verbatim>\<open>amount\<close> of the quote currency for a market-buy.

  The freeze is as the claim says, the loop is not: it subtracts the traded base quantity.
  On the book of the engine's own test a market buy of amount 1 trades 0.5 at 50000 and
  0.5 at 50500 and comes back filled with filled amount 1, a purchase worth 50250 USDT,
  while \<^verbatim>\<open>calculateFreezeAmount\<close> freezes 1 USDT for the same request.
\<close>

theorem market_buy_counts_base_units:
  "(case ProcessOrder (engineOf testAsks) (Some marketBuyOne) of
      Some (Inr (Processed res order' me')) \<Rightarrow>
        map (\<lambda>t. (Trade.Price t, Trade.Amount t)) (Trades res) =
          [(Some 50000, Some (1/2)), (Some 50500, Some (1/2))] \<and>
        Order.Status order' = 3 \<and> FilledAmount order' = Some 1
    | _ \<Rightarrow> False) \<and>
   calculateFreezeAmount
     \<lparr>CreateOrderRequest.Symbol = ''BTC/USDT'', CreateOrderRequest.Type = 2, CreateOrderRequest.Side = 1,
      CreateOrderRequest.Amount = Some 1, CreateOrderRequest.Price = None\<rparr> btcUsdt
     = Inr (''USDT'', Some 1)"
  by (simp add: engine_eval engineOf_def testAsks_def marketBuyOne_def newOrder_def
      calculateFreezeAmount_def btcUsdt_def)

section \<open>The filled amount of an order\<close>

text \<open>
  C6. For every order, throughout matching and settlement, its \<^verbatim>\<open>filled_amount\<close> is
  non-decreasing over the sequence of operations applied to it and satisfies
  \<open>0 \<le> filled_amount \<le> amount\<close> at all times.

  The engine breaks both. A resting sell of 10 at 100 is hit by a limit buy of 6: the
  maker is left with amount 4 and filled amount 6. A second limit buy of 1 then finds
  \<^verbatim>\<open>makerAvailable\<close> \<open>= 4 - 6\<close>, trades the amount \<open>-2\<close>, and the maker leaves the
  book as filled with filled amount 4: the filled amount went from 6 down to 4.
\<close>

theorem filled_amount_exceeds_amount_and_decreases:
  "(case ProcessOrder (engineOf tenAsk) (Some (newOrder 8 5 1 1 (Some 6) (Some 100))) of
      Some (Inr (Processed res1 order1 me1)) \<Rightarrow>
        map (\<lambda>u. (ID u, Order.Amount u, FilledAmount u, Order.Status u)) (UpdatedOrders res1)
          = [(2, Some 4, Some 6, 2)] \<and>
        (case ProcessOrder me1 (Some (newOrder 9 6 1 1 (Some 1) (Some 100))) of
           Some (Inr (Processed res2 order2 me2)) \<Rightarrow>
             map (\<lambda>t. (SellOrderID t, Trade.Amount t)) (Trades res2) = [(2, Some (- 2))] \<and>
             map (\<lambda>u. (ID u, Order.Amount u, FilledAmount u, Order.Status u)) (FilledOrders res2)
               = [(2, Some 4, Some 4, 3)]
         | _ \<Rightarrow> False)
    | _ \<Rightarrow> False)"
  by (simp add: engine_eval engineOf_def tenAsk_def newOrder_def)

section \<open>Cancelling and the book\<close>

text \<open>
  C7. Successfully cancelling an order with status Pending or PartiallyFilled performs, in
  one transaction: removal of the order from the in-memory order book, setting its status
  to Canceled, and unfreezing the residual funds, \<open>(amount - filled_amount) * price\<close> of
  the quote currency for a limit-buy, \<open>(amount - filled_amount)\<close> of the base currency
  for a sell.

  \<^verbatim>\<open>CancelOrderLogic.CancelOrder\<close> sets the status and unfreezes, and never touches
  the engine (\<open>CancelOrder_engine\<close>). Here user 1 cancels the resting order 7: the row
  gets status 4, the 1000 USDT are unfrozen, and order 7 is still the bid of the book,
  where the next sell order trades with it.
\<close>

theorem cancelled_order_stays_in_book:
  "(case CancelOrder (restingCtx 0) (StringValue ''1'') 7 of
      Inr (Inr response, svcCtx') \<Rightarrow>
        map_option Order.Status (OrderModel svcCtx' 7) = Some 4 \<and>
        map_option (\<lambda>b. (Available b, Frozen b)) (BalanceModel svcCtx' (1, ''USDT''))
          = Some (Some 1000, Some 0) \<and>
        map (\<lambda>m. (ID m, Order.Status m)) (queue False (bookOf (MatchingEngine svcCtx') ''BTC/USDT''))
          = [(7, 1)] \<and>
        (case ProcessOrder (MatchingEngine svcCtx') (Some (newOrder 8 2 1 2 (Some 4) (Some 100))) of
           Some (Inr (Processed res order' me')) \<Rightarrow>
             map (\<lambda>t. (BuyOrderID t, SellOrderID t, Trade.Amount t)) (Trades res) = [(7, 8, Some 4)]
         | _ \<Rightarrow> False)
    | _ \<Rightarrow> False)"
  by (simp add: service_eval engine_eval restingCtx_def bidSeven_def engineOf_def newOrder_def btcUsdt_def
      queue_def bookOf_def ladder_def prices_def levelOrders_def)

section \<open>Settlement of trades\<close>




end
